theory Spec2Isabelle
  imports Complex_Main "HOL-Library.AList"
begin

section \<open>Python values and exceptions\<close>

text \<open>
  The model is a shallow embedding of \<^verbatim>\<open>app.py\<close>.  Exceptions are values: a function
  that may raise returns \<open>exn + 'a\<close>, with \<open>Inl\<close> the exception.  A Python \<^verbatim>\<open>float\<close> is
  modelled by the real number it stands for (binary64 rounding, NaN and the infinities are
  outside the model); a \<^verbatim>\<open>str\<close> is a list of (ASCII) characters.
\<close>

datatype exn = TypeError | ValueError | IndexError | GEOSException

text \<open>An attribute value of a feature: the text read from the file, or the number
  \<^verbatim>\<open>safe_number\<close> made of it.\<close>

datatype pyval = VStr string | VFloat real

text \<open>\<^verbatim>\<open>xs[i]\<close> on a list: negative indices count from the end, anything else out of range
  raises \<^verbatim>\<open>IndexError\<close>.\<close>

definition py_get :: "'a list \<Rightarrow> int \<Rightarrow> exn + 'a" where
  "py_get xs i =
     (if 0 \<le> i \<and> i < int (length xs) then Inr (xs ! nat i)
      else if i < 0 \<and> - int (length xs) \<le> i then Inr (xs ! nat (int (length xs) + i))
      else Inl IndexError)"

section \<open>Helpers: \<^verbatim>\<open>safe_number\<close>\<close>

subsection \<open>The pattern \<^verbatim>\<open>[-+]?\d*\.?\d+\<close>\<close>

text \<open>
  A pattern of the shape used by \<^verbatim>\<open>safe_number\<close> is a sequence of character classes, each
  with a greedy quantifier.  \<open>rmatch\<close> is the backtracking matcher of Python's \<^verbatim>\<open>re\<close>
  anchored at the start of the string: it returns the rest of the string after the match
  the engine prefers (greedy quantifiers take as much as they can and give back one
  character at a time), or \<open>None\<close> when no match starts here.
\<close>

datatype quant = One | Opt | Star | Plus

type_synonym atom = "(char \<Rightarrow> bool) \<times> quant"

fun rmatch :: "atom list \<Rightarrow> string \<Rightarrow> string option" where
  "rmatch [] s = Some s"
| "rmatch ((c, One) # as) [] = None"
| "rmatch ((c, One) # as) (x # xs) = (if c x then rmatch as xs else None)"
| "rmatch ((c, Opt) # as) [] = rmatch as []"
| "rmatch ((c, Opt) # as) (x # xs) =
     (if c x then (case rmatch as xs of Some r \<Rightarrow> Some r | None \<Rightarrow> rmatch as (x # xs))
      else rmatch as (x # xs))"
| "rmatch ((c, Star) # as) [] = rmatch as []"
| "rmatch ((c, Star) # as) (x # xs) =
     (if c x then (case rmatch ((c, Star) # as) xs of Some r \<Rightarrow> Some r
                   | None \<Rightarrow> rmatch as (x # xs))
      else rmatch as (x # xs))"
| "rmatch ((c, Plus) # as) [] = None"
| "rmatch ((c, Plus) # as) (x # xs) = (if c x then rmatch ((c, Star) # as) xs else None)"

text \<open>\<^verbatim>\<open>re.findall\<close>: the matches from left to right, each search starting where the
  previous match ended (one character further after an empty match).\<close>

function findall :: "atom list \<Rightarrow> string \<Rightarrow> string list" where
  "findall pat s =
     (case rmatch pat s of
        None \<Rightarrow> (case s of [] \<Rightarrow> [] | x # xs \<Rightarrow> findall pat xs)
      | Some r \<Rightarrow>
          take (length s - length r) s #
            (if length r < length s then findall pat r
             else (case s of [] \<Rightarrow> [] | x # xs \<Rightarrow> findall pat xs)))"
  by pat_completeness auto
termination
  by (relation "measure (\<lambda>(pat, s). length s)") auto

declare findall.simps [simp del]

definition is_digit :: "char \<Rightarrow> bool" where
  "is_digit c = (c \<in> set ''0123456789'')"

definition is_sign :: "char \<Rightarrow> bool" where
  "is_sign c = (c = CHR ''-'' \<or> c = CHR ''+'')"

definition is_dot :: "char \<Rightarrow> bool" where
  "is_dot c = (c = CHR ''.'')"

definition number_pattern :: "atom list" where
  "number_pattern = [(is_sign, Opt), (is_digit, Star), (is_dot, Opt), (is_digit, Plus)]"

subsection \<open>\<^verbatim>\<open>float\<close> on a decimal numeral\<close>

definition digit_val :: "char \<Rightarrow> nat" where
  "digit_val c = of_char c - 48"

definition digits_val :: "string \<Rightarrow> nat" where
  "digits_val ds = foldl (\<lambda>a c. 10 * a + digit_val c) 0 ds"

text \<open>\<^verbatim>\<open>float(s)\<close> for a string \<open>s\<close> of the shape the pattern matches: an optional sign,
  digits, and an optional fraction.  Any other string raises \<^verbatim>\<open>ValueError\<close> here (the
  pattern never produces one).  \<open>float_body\<close> reads the part after the sign.\<close>

definition float_body :: "real \<Rightarrow> string \<Rightarrow> exn + real" where
  "float_body sg body =
     (case dropWhile is_digit body of
        [] \<Rightarrow> if takeWhile is_digit body = [] then Inl ValueError
              else Inr (sg * real (digits_val (takeWhile is_digit body)))
      | d # fp \<Rightarrow>
          if is_dot d \<and> list_all is_digit fp \<and> (takeWhile is_digit body \<noteq> [] \<or> fp \<noteq> [])
          then Inr (sg * (real (digits_val (takeWhile is_digit body)) +
                          real (digits_val fp) / 10 ^ length fp))
          else Inl ValueError)"

definition float_numeral :: "string \<Rightarrow> exn + real" where
  "float_numeral s =
     (case s of
        [] \<Rightarrow> Inl ValueError
      | c # r \<Rightarrow>
          if c = CHR ''-'' then float_body (- 1) r
          else if c = CHR ''+'' then float_body 1 r
          else float_body 1 s)"

text \<open>\<^verbatim>\<open>safe_number(val)\<close>, for the strings \<^verbatim>\<open>load_layers\<close> passes to it.\<close>

definition safe_number :: "string \<Rightarrow> pyval" where
  "safe_number val =
     (case findall number_pattern val of
        [] \<Rightarrow> VStr val
      | m0 # ms \<Rightarrow> (case float_numeral m0 of Inl e \<Rightarrow> VStr val | Inr x \<Rightarrow> VFloat x))"

section \<open>Helpers: \<^verbatim>\<open>detect_field\<close>\<close>

definition FILE_FIELD_MAP :: "(string \<times> string) list" where
  "FILE_FIELD_MAP =
     [(''pga-earthquake'', ''pga''),
      (''SS-earthquake'', ''ss''),
      (''S1-earthquake'', ''s1''),
      (''tl-earthquake'', ''tl''),
      (''cr1-earthquake'', ''cr1''),
      (''crs-earthquake'', ''crs''),
      (''wind-sbc'', ''v''),
      (''Inspection Areas'', ''inspection_area'')]"

definition COMBINE_RULES :: "string \<rightharpoonup> string" where
  "COMBINE_RULES =
     map_of [(''pga'', ''max''), (''ss'', ''max''), (''s1'', ''max''),
             (''cr1'', ''max''), (''crs'', ''max''),
             (''tl'', ''first''),
             (''v'', ''max''),
             (''inspection_area'', ''first'')]"

definition UNITS :: "string \<rightharpoonup> string" where
  "UNITS =
     map_of [(''pga'', ''g''), (''ss'', ''g''), (''s1'', ''g''),
             (''cr1'', ''g''), (''crs'', ''g''),
             (''tl'', ''s''),
             (''v'', ''m/s''),
             (''inspection_area'', ''string'')]"

text \<open>\<^verbatim>\<open>str.lower\<close> on ASCII text.\<close>

definition lower_char :: "char \<Rightarrow> char" where
  "lower_char c =
     (let n = (of_char c :: nat) in if 65 \<le> n \<and> n \<le> 90 then char_of (n + 32) else c)"

definition lower :: "string \<Rightarrow> string" where
  "lower s = map lower_char s"

text \<open>\<^verbatim>\<open>k in s\<close> for strings: \<open>k\<close> occurs in \<open>s\<close> as a contiguous substring.\<close>

fun str_in :: "string \<Rightarrow> string \<Rightarrow> bool" where
  "str_in k [] = (k = [])"
| "str_in k (x # xs) = (take (length k) (x # xs) = k \<or> str_in k xs)"

fun detect_in :: "(string \<times> string) list \<Rightarrow> string \<Rightarrow> string option" where
  "detect_in [] filename = None"
| "detect_in ((key, fld) # rest) filename =
     (if str_in (lower key) (lower filename) then Some fld else detect_in rest filename)"

definition detect_field :: "string \<Rightarrow> string option" where
  "detect_field filename = detect_in FILE_FIELD_MAP filename"

section \<open>The geometry library\<close>

text \<open>
  Shapely is outside the repository.  Its geometries \<open>'g\<close> and its index \<open>'t\<close> are type
  parameters, and the calls the program makes are the fields of a record of functions;
  every call may raise.  A point is the pair \<open>(x, y)\<close>, that is (longitude, latitude).
  The calls are functions of their arguments: Shapely's geometries and its built index
  are read-only objects.

  What \<^verbatim>\<open>STRtree.query\<close> and \<^verbatim>\<open>STRtree.nearest\<close> return depends on the version of the
  library: \<^verbatim>\<open>None\<close>, a sequence of positions or of geometries, or a single position or
  geometry.
\<close>

type_synonym point = "real \<times> real"

datatype 'g item = ItemInt int | ItemGeom 'g

datatype 'g raw = RawNone | RawSeq "'g item list" | RawScalar "'g item"

record ('g, 't) shapely =
  is_valid :: "'g \<Rightarrow> exn + bool"
  make_valid :: "'g \<Rightarrow> exn + 'g"
  STRtree :: "'g list \<Rightarrow> exn + 't"
  tree_len :: "'t \<Rightarrow> nat"
  tree_query_point :: "'t \<Rightarrow> point \<Rightarrow> exn + 'g raw"
  tree_query :: "'t \<Rightarrow> 'g \<Rightarrow> exn + 'g raw"
  tree_nearest :: "'t \<Rightarrow> point \<Rightarrow> exn + 'g raw"
  buffer :: "point \<Rightarrow> real \<Rightarrow> exn + 'g"
  covers :: "'g \<Rightarrow> point \<Rightarrow> exn + bool"
  distance :: "'g \<Rightarrow> point \<Rightarrow> exn + real"
  nearest_points :: "point \<Rightarrow> 'g \<Rightarrow> exn + (point \<times> point)"
  wkb :: "'g \<Rightarrow> exn + string"
  equals :: "'g \<Rightarrow> 'g \<Rightarrow> exn + bool"
  representative_point :: "'g \<Rightarrow> exn + point"
  exterior_coords :: "'g \<Rightarrow> exn + (real \<times> real) list"
  float_str :: "string \<Rightarrow> exn + real"

section \<open>Layers\<close>

record ('g, 't) Layer =
  field :: string
  geoms :: "'g list"
  attrs :: "(string \<rightharpoonup> pyval) list"
  sources :: "string list"
  strtree :: "'t option"

definition new_Layer :: "string \<Rightarrow> ('g, 't) Layer" where
  "new_Layer fld = \<lparr>field = fld, geoms = [], attrs = [], sources = [], strtree = None\<rparr>"

text \<open>One geometry of \<^verbatim>\<open>build_index\<close>: repaired when invalid, kept as it is when the test or
  the repair raises.\<close>

definition fix_geom :: "('g, 't) shapely \<Rightarrow> 'g \<Rightarrow> 'g" where
  "fix_geom lib g =
     (case is_valid lib g of
        Inl e \<Rightarrow> g
      | Inr True \<Rightarrow> g
      | Inr False \<Rightarrow> (case make_valid lib g of Inl e \<Rightarrow> g | Inr g' \<Rightarrow> g'))"

definition build_index :: "('g, 't) shapely \<Rightarrow> ('g, 't) Layer \<Rightarrow> exn + ('g, 't) Layer" where
  "build_index lib L =
     (let fixed = map (fix_geom lib) (geoms L);
          L1 = L\<lparr>geoms := fixed\<rparr>
      in if fixed \<noteq> []
         then (case STRtree lib fixed of Inl e \<Rightarrow> Inl e | Inr t \<Rightarrow> Inr (L1\<lparr>strtree := Some t\<rparr>))
         else Inr L1)"

text \<open>
  \<^verbatim>\<open>load_layers\<close>.  The files found by \<^verbatim>\<open>glob\<close> are a list of paths, and \<open>parse\<close> stands for
  \<^verbatim>\<open>parse_kml_file\<close> (it catches its own errors and returns the features read, each a
  geometry, its attributes and the file's name).  The registry is a dictionary in
  insertion order: an association list with one entry per key.
\<close>

type_synonym 'g feature = "'g \<times> (string \<rightharpoonup> string) \<times> string"

type_synonym ('g, 't) registry = "(string \<times> ('g, 't) Layer) list"

definition path_name :: "string \<Rightarrow> string" where
  "path_name f = rev (takeWhile (\<lambda>c. c \<noteq> CHR ''/'') (rev f))"

definition coerce_attrs :: "string \<Rightarrow> (string \<rightharpoonup> string) \<Rightarrow> (string \<rightharpoonup> pyval)" where
  "coerce_attrs fld a =
     (case a fld of
        None \<Rightarrow> map_option VStr \<circ> a
      | Some v \<Rightarrow> (map_option VStr \<circ> a)(fld \<mapsto> safe_number v))"

fun add_feats :: "string \<Rightarrow> ('g, 't) Layer \<Rightarrow> 'g feature list \<Rightarrow> ('g, 't) Layer" where
  "add_feats fld L [] = L"
| "add_feats fld L ((geom, a, src) # feats) =
     add_feats fld
       (L\<lparr>geoms := geoms L @ [geom],
          attrs := attrs L @ [coerce_attrs fld a],
          sources := sources L @ [src]\<rparr>) feats"

definition load_file ::
  "(string \<Rightarrow> string \<Rightarrow> 'g feature list) \<Rightarrow> ('g, 't) registry \<Rightarrow> string \<Rightarrow> ('g, 't) registry"
where
  "load_file parse layers f =
     (case detect_field (path_name f) of
        None \<Rightarrow> layers
      | Some fld \<Rightarrow>
          (let feats = parse f fld;
               L = (case map_of layers fld of None \<Rightarrow> new_Layer fld | Some L0 \<Rightarrow> L0)
           in AList.update fld (add_feats fld L feats) layers))"

fun build_all :: "('g, 't) shapely \<Rightarrow> ('g, 't) registry \<Rightarrow> exn + ('g, 't) registry" where
  "build_all lib [] = Inr []"
| "build_all lib ((fld, L) # rest) =
     (case build_index lib L of
        Inl e \<Rightarrow> Inl e
      | Inr L' \<Rightarrow>
          (case build_all lib rest of Inl e \<Rightarrow> Inl e | Inr built \<Rightarrow> Inr ((fld, L') # built)))"

text \<open>The first loop of \<^verbatim>\<open>load_layers\<close>: the features of every recognised file, grouped by
  field.\<close>

definition group_layers ::
  "(string \<Rightarrow> string \<Rightarrow> 'g feature list) \<Rightarrow> string list \<Rightarrow> ('g, 't) registry"
where
  "group_layers parse files = foldl (load_file parse) [] files"

definition load_layers ::
  "('g, 't) shapely \<Rightarrow> (string \<Rightarrow> string \<Rightarrow> 'g feature list) \<Rightarrow> string list
     \<Rightarrow> exn + ('g, 't) registry"
where
  "load_layers lib parse files = build_all lib (group_layers parse files)"

section \<open>Distance\<close>

definition radians :: "real \<Rightarrow> real" where
  "radians x = x * pi / 180"

text \<open>\<^verbatim>\<open>math.sqrt\<close> and \<^verbatim>\<open>math.asin\<close> raise \<^verbatim>\<open>ValueError\<close> outside their domain.\<close>

definition math_sqrt :: "real \<Rightarrow> exn + real" where
  "math_sqrt x = (if x < 0 then Inl ValueError else Inr (sqrt x))"

definition math_asin :: "real \<Rightarrow> exn + real" where
  "math_asin x = (if x < - 1 \<or> 1 < x then Inl ValueError else Inr (arcsin x))"

definition haversine_km :: "real \<Rightarrow> real \<Rightarrow> real \<Rightarrow> real \<Rightarrow> exn + real" where
  "haversine_km lat1 lon1 lat2 lon2 =
     (let R = 6371.0088;
          dlat = radians (lat2 - lat1);
          dlon = radians (lon2 - lon1);
          a = (sin (dlat / 2))\<^sup>2 + cos (radians lat1) * cos (radians lat2) * (sin (dlon / 2))\<^sup>2
      in case math_sqrt a of
           Inl e \<Rightarrow> Inl e
         | Inr r \<Rightarrow> (case math_asin r of Inl e \<Rightarrow> Inl e | Inr t \<Rightarrow> Inr (2 * R * t)))"

text \<open>\<^verbatim>\<open>round(x, n)\<close>: to \<open>n\<close> decimal places, a tie going to the even neighbour.\<close>

definition round_half_even :: "real \<Rightarrow> int" where
  "round_half_even x =
     (let f = \<lfloor>x\<rfloor>; d = x - of_int f
      in if d < 1 / 2 then f else if 1 / 2 < d then f + 1 else if even f then f else f + 1)"

definition py_round :: "real \<Rightarrow> nat \<Rightarrow> real" where
  "py_round x n = of_int (round_half_even (x * 10 ^ n)) / 10 ^ n"

definition point_geom_distance_km :: "('g, 't) shapely \<Rightarrow> point \<Rightarrow> 'g \<Rightarrow> real option" where
  "point_geom_distance_km lib pt geom =
     (let inside = (case covers lib geom pt of Inl e \<Rightarrow> False | Inr b \<Rightarrow> b)
      in if inside then Some 0
         else (case nearest_points lib pt geom of
                 Inl e \<Rightarrow> None
               | Inr (p1, p2) \<Rightarrow>
                   (case haversine_km (snd p1) (fst p1) (snd p2) (fst p2) of
                      Inl e \<Rightarrow> None
                    | Inr d \<Rightarrow> Some (py_round d 3))))"

section \<open>Normalising what the index returns\<close>

fun find_wkb :: "('g, 't) shapely \<Rightarrow> string \<Rightarrow> nat \<Rightarrow> 'g list \<Rightarrow> exn + nat option" where
  "find_wkb lib cwkb i [] = Inr None"
| "find_wkb lib cwkb i (g # gs) =
     (case wkb lib g of
        Inl e \<Rightarrow> Inl e
      | Inr w \<Rightarrow> if w = cwkb then Inr (Some i) else find_wkb lib cwkb (Suc i) gs)"

fun find_equals :: "('g, 't) shapely \<Rightarrow> 'g \<Rightarrow> nat \<Rightarrow> 'g list \<Rightarrow> exn + nat option" where
  "find_equals lib item i [] = Inr None"
| "find_equals lib item i (g # gs) =
     (case equals lib g item of
        Inl e \<Rightarrow> Inl e
      | Inr b \<Rightarrow> if b then Inr (Some i) else find_equals lib item (Suc i) gs)"

text \<open>The position of a geometry item: by its WKB, and by \<^verbatim>\<open>equals\<close> when that raises.\<close>

definition item_index :: "('g, 't) shapely \<Rightarrow> ('g, 't) Layer \<Rightarrow> 'g \<Rightarrow> exn + nat option" where
  "item_index lib L item =
     (case (case wkb lib item of
              Inl e \<Rightarrow> Inl e
            | Inr cwkb \<Rightarrow> find_wkb lib cwkb 0 (geoms L)) of
        Inr found \<Rightarrow> Inr found
      | Inl e \<Rightarrow> find_equals lib item 0 (geoms L))"

text \<open>The loop over the items.  An exception leaves the loop with the positions
  collected so far.\<close>

fun index_items ::
  "('g, 't) shapely \<Rightarrow> ('g, 't) Layer \<Rightarrow> int list \<Rightarrow> 'g item list \<Rightarrow> (exn \<times> int list) + int list"
where
  "index_items lib L idxs [] = Inr idxs"
| "index_items lib L idxs (ItemInt n # rest) = index_items lib L (idxs @ [n]) rest"
| "index_items lib L idxs (ItemGeom g # rest) =
     (case item_index lib L g of
        Inl e \<Rightarrow> Inl (e, idxs)
      | Inr None \<Rightarrow> index_items lib L idxs rest
      | Inr (Some i) \<Rightarrow> index_items lib L (idxs @ [int i]) rest)"

definition to_index_array ::
  "('g, 't) shapely \<Rightarrow> ('g, 't) Layer \<Rightarrow> 'g raw \<Rightarrow> exn + int list"
where
  "to_index_array lib L cands =
     (case cands of
        RawNone \<Rightarrow> Inr []
      | RawSeq items \<Rightarrow>
          (case index_items lib L [] items of
             Inr idxs \<Rightarrow> Inr idxs
           | Inl (e, idxs) \<Rightarrow> if e = TypeError then Inr idxs else Inl e)
      | RawScalar (ItemInt n) \<Rightarrow> Inr [n]
      | RawScalar (ItemGeom g) \<Rightarrow> Inr [])"

text \<open>\<^verbatim>\<open>min(xs, key=...)\<close>: the first element with the least key; raises on an empty
  sequence and when the key raises.\<close>

fun min_by_loop :: "('a \<Rightarrow> exn + real) \<Rightarrow> 'a \<Rightarrow> real \<Rightarrow> 'a list \<Rightarrow> exn + 'a" where
  "min_by_loop key best kb [] = Inr best"
| "min_by_loop key best kb (x # xs) =
     (case key x of
        Inl e \<Rightarrow> Inl e
      | Inr k \<Rightarrow> if k < kb then min_by_loop key x k xs else min_by_loop key best kb xs)"

definition py_min_by :: "('a \<Rightarrow> exn + real) \<Rightarrow> 'a list \<Rightarrow> exn + 'a" where
  "py_min_by key xs =
     (case xs of
        [] \<Rightarrow> Inl ValueError
      | x # rest \<Rightarrow> (case key x of Inl e \<Rightarrow> Inl e | Inr k \<Rightarrow> min_by_loop key x k rest))"

text \<open>The key \<^verbatim>\<open>lambda i: L.geoms[i].distance(pt)\<close>.\<close>

definition dist_key :: "('g, 't) shapely \<Rightarrow> ('g, 't) Layer \<Rightarrow> point \<Rightarrow> int \<Rightarrow> exn + real" where
  "dist_key lib L pt i =
     (case py_get (geoms L) i of Inl e \<Rightarrow> Inl e | Inr g \<Rightarrow> distance lib g pt)"

text \<open>The truth value of \<^verbatim>\<open>L.strtree\<close>: \<^verbatim>\<open>None\<close> is false, and so is an index of length 0.\<close>

definition tree_truthy :: "('g, 't) shapely \<Rightarrow> ('g, 't) Layer \<Rightarrow> bool" where
  "tree_truthy lib L = (case strtree L of None \<Rightarrow> False | Some t \<Rightarrow> tree_len lib t \<noteq> 0)"

definition nearest_index ::
  "('g, 't) shapely \<Rightarrow> ('g, 't) Layer \<Rightarrow> point \<Rightarrow> exn + int option"
where
  "nearest_index lib L pt =
     (case strtree L of
        None \<Rightarrow> Inr None
      | Some t \<Rightarrow>
          if tree_len lib t = 0 \<or> length (geoms L) = 0 then Inr None
          else
            (case (case tree_nearest lib t pt of
                     Inl e \<Rightarrow> if e = TypeError then tree_nearest lib t pt else Inl e
                   | Inr res \<Rightarrow> Inr res) of
               Inl e \<Rightarrow> Inl e
             | Inr res \<Rightarrow>
                 (case to_index_array lib L res of
                    Inl e \<Rightarrow> Inl e
                  | Inr [] \<Rightarrow>
                      (case py_min_by (dist_key lib L pt) (map int [0 ..< length (geoms L)]) of
                         Inl e \<Rightarrow> Inr None
                       | Inr i \<Rightarrow> Inr (Some i))
                  | Inr (i # rest) \<Rightarrow> Inr (Some i))))"

section \<open>The point query\<close>

record qrecord =
  rec_value :: pyval
  rec_unit :: string
  rec_source :: string
  rec_distance_km :: "real option"

record debug_row =
  dbg_field :: string
  dbg_picked_from :: string
  dbg_value :: pyval
  dbg_selection :: string
  dbg_inside_or_on_boundary :: bool
  dbg_distance_km :: "real option"
  dbg_polygon_centroid_latlon :: "(real \<times> real) option"
  dbg_polygon_sample_latlon :: "(real \<times> real) list option"

text \<open>The loop \<^verbatim>\<open>for i in cand_idxs\<close>: the first candidate whose polygon covers the point;
  a candidate whose test raises is passed over.\<close>

fun first_covering :: "('g, 't) shapely \<Rightarrow> 'g list \<Rightarrow> point \<Rightarrow> int list \<Rightarrow> int option" where
  "first_covering lib gs pt [] = None"
| "first_covering lib gs pt (i # rest) =
     (case py_get gs i of
        Inl e \<Rightarrow> first_covering lib gs pt rest
      | Inr g \<Rightarrow>
          (case covers lib g pt of
             Inl e \<Rightarrow> first_covering lib gs pt rest
           | Inr b \<Rightarrow> if b then Some i else first_covering lib gs pt rest))"

text \<open>Step 1, the candidates by the point's bounding box, and step 2, the candidates
  of the envelope \<^verbatim>\<open>pt.buffer(0.45)\<close>; a query that raises gives the empty list.\<close>

definition bbox_candidates ::
  "('g, 't) shapely \<Rightarrow> ('g, 't) Layer \<Rightarrow> 't \<Rightarrow> point \<Rightarrow> exn + int list"
where
  "bbox_candidates lib L t pt =
     (let raw = (case tree_query_point lib t pt of Inl e \<Rightarrow> RawSeq [] | Inr r \<Rightarrow> r)
      in to_index_array lib L raw)"

definition expanded_candidates ::
  "('g, 't) shapely \<Rightarrow> ('g, 't) Layer \<Rightarrow> 't \<Rightarrow> point \<Rightarrow> exn + int list"
where
  "expanded_candidates lib L t pt =
     (let raw2 = (case buffer lib pt 0.45 of
                    Inl e \<Rightarrow> RawSeq []
                  | Inr env \<Rightarrow> (case tree_query lib t env of Inl e \<Rightarrow> RawSeq [] | Inr r \<Rightarrow> r))
      in to_index_array lib L raw2)"

text \<open>Steps 1 to 4 of the query for one layer with index \<open>t\<close>: the chosen position, the
  selection mode and the inside flag.\<close>

definition select_index ::
  "('g, 't) shapely \<Rightarrow> ('g, 't) Layer \<Rightarrow> 't \<Rightarrow> point \<Rightarrow> bool
     \<Rightarrow> exn + (int option \<times> string \<times> bool)"
where
  "select_index lib L t pt force_nearest =
     (case bbox_candidates lib L t pt of
        Inl e \<Rightarrow> Inl e
      | Inr cand_idxs \<Rightarrow>
          (case first_covering lib (geoms L) pt cand_idxs of
             Some i \<Rightarrow> Inr (Some i, ''covers'', True)
           | None \<Rightarrow>
               (case (if cand_idxs = [] then expanded_candidates lib L t pt
                      else Inr cand_idxs) of
                  Inl e \<Rightarrow> Inl e
                | Inr [] \<Rightarrow>
                    if force_nearest
                    then (case nearest_index lib L pt of
                            Inl e \<Rightarrow> Inl e
                          | Inr None \<Rightarrow> Inr (None, ''none'', False)
                          | Inr (Some i) \<Rightarrow> Inr (Some i, ''nearest_of_layer'', False))
                    else Inr (None, ''none'', False)
                | Inr (c # cs) \<Rightarrow>
                    Inr (Some (case py_min_by (dist_key lib L pt) (c # cs) of
                                 Inl e \<Rightarrow> c
                               | Inr i \<Rightarrow> i),
                         ''nearest_of_candidates'', False))))"

text \<open>The body of the loop over the layers up to the record: \<open>None\<close> is \<^verbatim>\<open>continue\<close>.\<close>

definition query_layer ::
  "('g, 't) shapely \<Rightarrow> point \<Rightarrow> bool \<Rightarrow> string \<Rightarrow> ('g, 't) Layer
     \<Rightarrow> exn + (int \<times> string \<times> bool \<times> 'g \<times> qrecord) option"
where
  "query_layer lib pt force_nearest fld L =
     (case strtree L of
        None \<Rightarrow> Inr None
      | Some t \<Rightarrow>
          if tree_len lib t = 0 then Inr None
          else
            (case select_index lib L t pt force_nearest of
               Inl e \<Rightarrow> Inl e
             | Inr (None, selection, inside) \<Rightarrow> Inr None
             | Inr (Some chosen_idx, selection, inside) \<Rightarrow>
                 (case py_get (attrs L) chosen_idx of
                    Inl e \<Rightarrow> Inl e
                  | Inr a \<Rightarrow>
                      (case a fld of
                         None \<Rightarrow> Inr None
                       | Some v \<Rightarrow>
                           (case py_get (geoms L) chosen_idx of
                              Inl e \<Rightarrow> Inl e
                            | Inr geom \<Rightarrow>
                                (let dist_km = point_geom_distance_km lib pt geom
                                 in case py_get (sources L) chosen_idx of
                                      Inl e \<Rightarrow> Inl e
                                    | Inr src \<Rightarrow>
                                        Inr (Some (chosen_idx, selection, inside, geom,
                                          \<lparr>rec_value = v,
                                           rec_unit = (case UNITS fld of None \<Rightarrow> [] | Some u \<Rightarrow> u),
                                           rec_source = src,
                                           rec_distance_km = dist_km\<rparr>))))))))"

text \<open>\<^verbatim>\<open>float(value)\<close> in the combine rules: a number as it is, a string through the
  built-in conversion.\<close>

definition py_float :: "('g, 't) shapely \<Rightarrow> pyval \<Rightarrow> exn + real" where
  "py_float lib v = (case v of VFloat x \<Rightarrow> Inr x | VStr s \<Rightarrow> float_str lib s)"

definition combine ::
  "('g, 't) shapely \<Rightarrow> (string \<rightharpoonup> string) \<Rightarrow> (string \<rightharpoonup> qrecord) \<Rightarrow> string \<Rightarrow> qrecord
     \<Rightarrow> (string \<rightharpoonup> qrecord)"
where
  "combine lib rules results fld record =
     (let rule = (case rules fld of None \<Rightarrow> ''first'' | Some r \<Rightarrow> r)
      in case results fld of
           None \<Rightarrow> results(fld \<mapsto> record)
         | Some old \<Rightarrow>
             if rule = ''max''
             then (case py_float lib (rec_value record) of
                     Inl e \<Rightarrow> results
                   | Inr x \<Rightarrow>
                       (case py_float lib (rec_value old) of
                          Inl e \<Rightarrow> results
                        | Inr y \<Rightarrow> if y < x then results(fld \<mapsto> record) else results))
             else if rule = ''min''
             then (case py_float lib (rec_value record) of
                     Inl e \<Rightarrow> results
                   | Inr x \<Rightarrow>
                       (case py_float lib (rec_value old) of
                          Inl e \<Rightarrow> results
                        | Inr y \<Rightarrow> if x < y then results(fld \<mapsto> record) else results))
             else if rule = ''last'' then results(fld \<mapsto> record)
             else results)"

definition make_debug_row ::
  "('g, 't) shapely \<Rightarrow> string \<Rightarrow> string \<Rightarrow> bool \<Rightarrow> 'g \<Rightarrow> qrecord \<Rightarrow> debug_row"
where
  "make_debug_row lib fld selection inside geom record =
     \<lparr>dbg_field = fld,
      dbg_picked_from = rec_source record,
      dbg_value = rec_value record,
      dbg_selection = selection,
      dbg_inside_or_on_boundary = inside,
      dbg_distance_km = rec_distance_km record,
      dbg_polygon_centroid_latlon =
        (case representative_point lib geom of
           Inl e \<Rightarrow> None
         | Inr cent \<Rightarrow> Some (py_round (snd cent) 6, py_round (fst cent) 6)),
      dbg_polygon_sample_latlon =
        (case exterior_coords lib geom of
           Inl e \<Rightarrow> None
         | Inr ext \<Rightarrow> Some (map (\<lambda>(x, y). (py_round y 6, py_round x 6)) (take 3 ext)))\<rparr>"

text \<open>The loop \<^verbatim>\<open>for field, L in LAYERS.items()\<close>, with the results and the debug rows
  collected so far.\<close>

fun query_loop ::
  "('g, 't) shapely \<Rightarrow> (string \<rightharpoonup> string) \<Rightarrow> point \<Rightarrow> bool \<Rightarrow> bool \<Rightarrow> ('g, 't) registry
     \<Rightarrow> (string \<rightharpoonup> qrecord) \<Rightarrow> debug_row list
     \<Rightarrow> exn + ((string \<rightharpoonup> qrecord) \<times> debug_row list)"
where
  "query_loop lib rules pt force_nearest want_debug [] results debug_rows =
     Inr (results, debug_rows)"
| "query_loop lib rules pt force_nearest want_debug ((fld, L) # rest) results debug_rows =
     (case query_layer lib pt force_nearest fld L of
        Inl e \<Rightarrow> Inl e
      | Inr None \<Rightarrow> query_loop lib rules pt force_nearest want_debug rest results debug_rows
      | Inr (Some (chosen_idx, selection, inside, geom, record)) \<Rightarrow>
          query_loop lib rules pt force_nearest want_debug rest
            (combine lib rules results fld record)
            (if want_debug
             then debug_rows @ [make_debug_row lib fld selection inside geom record]
             else debug_rows))"

text \<open>
  The module's state is the registry \<^verbatim>\<open>LAYERS\<close>, built once by \<^verbatim>\<open>load_layers\<close>.
  \<^verbatim>\<open>query_point\<close> reads it; the function returns its result together with the state it
  leaves.  \<open>query_point_with\<close> has the table of combine rules as a parameter;
  \<open>query_point\<close> is the program's, with \<open>COMBINE_RULES\<close>.
\<close>

record ('g, 't) module_state =
  LAYERS :: "('g, 't) registry"

definition query_point_with ::
  "(string \<rightharpoonup> string) \<Rightarrow> ('g, 't) shapely \<Rightarrow> real \<Rightarrow> real \<Rightarrow> bool \<Rightarrow> bool
     \<Rightarrow> ('g, 't) module_state
     \<Rightarrow> (exn + ((string \<rightharpoonup> qrecord) \<times> debug_row list option)) \<times> ('g, 't) module_state"
where
  "query_point_with rules lib lat lon force_nearest want_debug s =
     (let pt = (lon, lat)
      in (case query_loop lib rules pt force_nearest want_debug (LAYERS s) Map.empty [] of
            Inl e \<Rightarrow> Inl e
          | Inr (results, debug_rows) \<Rightarrow>
              Inr (results, if want_debug then Some debug_rows else None),
          s))"

definition query_point ::
  "('g, 't) shapely \<Rightarrow> real \<Rightarrow> real \<Rightarrow> bool \<Rightarrow> bool \<Rightarrow> ('g, 't) module_state
     \<Rightarrow> (exn + ((string \<rightharpoonup> qrecord) \<times> debug_row list option)) \<times> ('g, 't) module_state"
where
  "query_point = query_point_with COMBINE_RULES"

section \<open>Notions used in the statements\<close>

text \<open>The polygon at position \<open>j\<close> of the layer covers the point (interior or boundary:
  Shapely's \<^verbatim>\<open>covers\<close>).\<close>

definition covers_at :: "('g, 't) shapely \<Rightarrow> ('g, 't) Layer \<Rightarrow> point \<Rightarrow> int \<Rightarrow> bool" where
  "covers_at lib L pt j =
     (case py_get (geoms L) j of Inl e \<Rightarrow> False | Inr g \<Rightarrow> covers lib g pt = Inr True)"

text \<open>The lists of a layer run in parallel, as \<^verbatim>\<open>load_layers\<close> builds them.\<close>

definition layer_wf :: "('g, 't) Layer \<Rightarrow> bool" where
  "layer_wf L =
     (length (attrs L) = length (geoms L) \<and> length (sources L) = length (geoms L))"

definition registry_wf :: "('g, 't) registry \<Rightarrow> bool" where
  "registry_wf layers = list_all (\<lambda>(fld, L). layer_wf L) layers"







text \<open>The record the tiered selection gives for a field, if any.\<close>

definition chosen_record ::
  "('g, 't) shapely \<Rightarrow> point \<Rightarrow> bool \<Rightarrow> string \<Rightarrow> ('g, 't) Layer \<Rightarrow> qrecord option"
where
  "chosen_record lib pt force_nearest fld L =
     (case query_layer lib pt force_nearest fld L of
        Inl e \<Rightarrow> None
      | Inr None \<Rightarrow> None
      | Inr (Some (chosen_idx, selection, inside, geom, record)) \<Rightarrow> Some record)"

text \<open>
  A numeral, in the words of the specification: an optional sign followed by an integer
  (digits) or a decimal (digits, possibly none, a point, and at least one digit).  The
  first numeral of a string is the occurrence that starts leftmost, and the longest of
  those that start there.
\<close>

definition digits :: "string \<Rightarrow> bool" where
  "digits ds = list_all is_digit ds"

definition unsigned_numeral :: "string \<Rightarrow> bool" where
  "unsigned_numeral b =
     (\<exists>ip fd. digits ip \<and> digits fd \<and>
        ((b = ip \<and> ip \<noteq> []) \<or> (b = ip @ ''.'' @ fd \<and> fd \<noteq> [])))"

definition is_numeral :: "string \<Rightarrow> bool" where
  "is_numeral m = (unsigned_numeral m \<or> (\<exists>c b. is_sign c \<and> m = c # b \<and> unsigned_numeral b))"

definition first_numeral :: "string \<Rightarrow> string \<Rightarrow> bool" where
  "first_numeral s m =
     (\<exists>pre suf. s = pre @ m @ suf \<and> is_numeral m \<and>
        (\<forall>pre' m' suf'. s = pre' @ m' @ suf' \<and> is_numeral m' \<longrightarrow>
           length pre < length pre' \<or> (length pre = length pre' \<and> length m' \<le> length m)))"

definition has_numeral :: "string \<Rightarrow> bool" where
  "has_numeral s = (\<exists>pre m suf. s = pre @ m @ suf \<and> is_numeral m)"

text \<open>An observer of the loop of \<^verbatim>\<open>query_point\<close>: every record the loop stores finds its key
  absent from the results, so that the store is the plain assignment of the first branch
  and no combine rule is consulted.\<close>

fun first_assignment_only ::
  "('g, 't) shapely \<Rightarrow> (string \<rightharpoonup> string) \<Rightarrow> point \<Rightarrow> bool \<Rightarrow> ('g, 't) registry
     \<Rightarrow> (string \<rightharpoonup> qrecord) \<Rightarrow> bool"
where
  "first_assignment_only lib rules pt force_nearest [] results = True"
| "first_assignment_only lib rules pt force_nearest ((fld, L) # rest) results =
     (case query_layer lib pt force_nearest fld L of
        Inl e \<Rightarrow> True
      | Inr None \<Rightarrow> first_assignment_only lib rules pt force_nearest rest results
      | Inr (Some (chosen_idx, selection, inside, geom, record)) \<Rightarrow>
          results fld = None \<and>
          first_assignment_only lib rules pt force_nearest rest
            (combine lib rules results fld record))"

text \<open>The great-circle distance in kilometres between two points given as (longitude,
  latitude) in degrees, on a sphere of radius 6371.0088 km (the haversine formula).\<close>

definition great_circle_km :: "point \<Rightarrow> point \<Rightarrow> real" where
  "great_circle_km p1 p2 =
     2 * 6371.0088 *
       arcsin (sqrt ((sin (radians (snd p2 - snd p1) / 2))\<^sup>2 +
                     cos (radians (snd p1)) * cos (radians (snd p2)) *
                       (sin (radians (fst p2 - fst p1) / 2))\<^sup>2))"

text \<open>The match of the pattern in closed form, used in the proofs: after the digits, a
  point followed by a digit continues the match through the digits that follow;
  otherwise the match ends with the digits, of which there must be one.\<close>

definition frac_rest :: "string \<Rightarrow> string option" where
  "frac_rest rest =
     (case rest of
        [] \<Rightarrow> None
      | c # r2 \<Rightarrow>
          if is_dot c \<and> r2 \<noteq> [] \<and> is_digit (hd r2) then Some (dropWhile is_digit r2)
          else None)"

definition num_body :: "string \<Rightarrow> string option" where
  "num_body s =
     (case frac_rest (dropWhile is_digit s) of
        Some r \<Rightarrow> Some r
      | None \<Rightarrow> if takeWhile is_digit s = [] then None else Some (dropWhile is_digit s))"

section \<open>A library of boxes, for the examples\<close>

text \<open>
  A small stand-in for Shapely on which the definitions can be run: a geometry is an
  axis-parallel box \<open>(x0, y0, x1, y1)\<close>, the index is the list of boxes and answers with
  positions.
\<close>

type_synonym box = "real \<times> real \<times> real \<times> real"

definition box_covers :: "box \<Rightarrow> point \<Rightarrow> bool" where
  "box_covers b p =
     (case b of (x0, y0, x1, y1) \<Rightarrow> x0 \<le> fst p \<and> fst p \<le> x1 \<and> y0 \<le> snd p \<and> snd p \<le> y1)"

definition box_clamp :: "box \<Rightarrow> point \<Rightarrow> point" where
  "box_clamp b p =
     (case b of (x0, y0, x1, y1) \<Rightarrow> (max x0 (min x1 (fst p)), max y0 (min y1 (snd p))))"

definition box_distance :: "box \<Rightarrow> point \<Rightarrow> real" where
  "box_distance b p =
     (let q = box_clamp b p in sqrt ((fst p - fst q)\<^sup>2 + (snd p - snd q)\<^sup>2))"

definition box_meets :: "box \<Rightarrow> box \<Rightarrow> bool" where
  "box_meets a b =
     (case a of (a0, b0, a1, b1) \<Rightarrow>
        (case b of (x0, y0, x1, y1) \<Rightarrow> a0 \<le> x1 \<and> x0 \<le> a1 \<and> b0 \<le> y1 \<and> y0 \<le> b1))"

fun positions :: "('a \<Rightarrow> bool) \<Rightarrow> int \<Rightarrow> 'a list \<Rightarrow> int list" where
  "positions P i [] = []"
| "positions P i (x # xs) = (if P x then i # positions P (i + 1) xs else positions P (i + 1) xs)"

definition box_nearest :: "box list \<Rightarrow> point \<Rightarrow> exn + box raw" where
  "box_nearest t p =
     (case py_min_by (\<lambda>i. Inr (box_distance (t ! nat i) p)) (map int [0 ..< length t]) of
        Inl e \<Rightarrow> Inr RawNone
      | Inr i \<Rightarrow> Inr (RawScalar (ItemInt i)))"

definition box_lib :: "(box, box list) shapely" where
  "box_lib =
     \<lparr>is_valid = (\<lambda>b. case b of (x0, y0, x1, y1) \<Rightarrow> Inr (x0 \<le> x1 \<and> y0 \<le> y1)),
      make_valid = (\<lambda>b. case b of (x0, y0, x1, y1) \<Rightarrow>
                      Inr (min x0 x1, min y0 y1, max x0 x1, max y0 y1)),
      STRtree = (\<lambda>gs. Inr gs),
      tree_len = length,
      tree_query_point = (\<lambda>t p. Inr (RawSeq (map ItemInt (positions (\<lambda>b. box_covers b p) 0 t)))),
      tree_query = (\<lambda>t env. Inr (RawSeq (map ItemInt (positions (box_meets env) 0 t)))),
      tree_nearest = box_nearest,
      buffer = (\<lambda>p r. Inr (fst p - r, snd p - r, fst p + r, snd p + r)),
      covers = (\<lambda>b p. Inr (box_covers b p)),
      distance = (\<lambda>b p. Inr (box_distance b p)),
      nearest_points = (\<lambda>p b. Inr (p, box_clamp b p)),
      wkb = (\<lambda>b. Inl GEOSException),
      equals = (\<lambda>a b. Inr (a = b)),
      representative_point =
        (\<lambda>b. case b of (x0, y0, x1, y1) \<Rightarrow> Inr ((x0 + x1) / 2, (y0 + y1) / 2)),
      exterior_coords =
        (\<lambda>b. case b of (x0, y0, x1, y1) \<Rightarrow>
           Inr [(x0, y0), (x1, y0), (x1, y1), (x0, y1), (x0, y0)]),
      float_str = float_numeral\<rparr>"

text \<open>Two fields.  The layer of \<open>pga\<close> has two overlapping boxes; the second box of \<open>tl\<close>
  carries no value for its field.\<close>

definition pga_boxes :: "box list" where
  "pga_boxes = [(0, 0, 2, 2), (1, 1, 3, 3)]"

definition tl_boxes :: "box list" where
  "tl_boxes = [(0, 0, 1, 1), (5, 5, 6, 6)]"

definition pga_layer :: "(box, box list) Layer" where
  "pga_layer =
     \<lparr>field = ''pga'',
      geoms = pga_boxes,
      attrs = [[''pga'' \<mapsto> VFloat 0.35], [''pga'' \<mapsto> VFloat 0.5]],
      sources = [''pga-earthquake.kml'', ''pga-earthquake.kml''],
      strtree = Some pga_boxes\<rparr>"

definition tl_layer :: "(box, box list) Layer" where
  "tl_layer =
     \<lparr>field = ''tl'',
      geoms = tl_boxes,
      attrs = [[''tl'' \<mapsto> VFloat 8], Map.empty],
      sources = [''tl-earthquake.kml'', ''tl-earthquake.kml''],
      strtree = Some tl_boxes\<rparr>"

definition demo_state :: "(box, box list) module_state" where
  "demo_state = \<lparr>LAYERS = [(''pga'', pga_layer), (''tl'', tl_layer)]\<rparr>"

text \<open>Three files as \<^verbatim>\<open>glob\<close> may find them, and what \<^verbatim>\<open>parse_kml_file\<close> reads from them;
  in the second variant the first file gives no feature.  The library \<open>brittle_lib\<close>
  cannot build an index over fewer than two geometries.\<close>

definition demo_files :: "string list" where
  "demo_files = [''data/pga-earthquake.kml'', ''data/tl-earthquake.kml'', ''data/notes.kml'']"

definition demo_parse :: "string \<Rightarrow> string \<Rightarrow> box feature list" where
  "demo_parse f fld =
     (if f = ''data/pga-earthquake.kml''
      then [((0, 0, 2, 2), [fld \<mapsto> ''0.35 g''], ''pga-earthquake.kml'')]
      else if f = ''data/tl-earthquake.kml''
      then [((0, 0, 1, 1), [fld \<mapsto> ''8''], ''tl-earthquake.kml''),
            ((5, 5, 6, 6), Map.empty, ''tl-earthquake.kml'')]
      else [])"

definition demo_parse_unreadable :: "string \<Rightarrow> string \<Rightarrow> box feature list" where
  "demo_parse_unreadable f fld =
     (if f = ''data/pga-earthquake.kml'' then [] else demo_parse f fld)"

definition brittle_lib :: "(box, box list) shapely" where
  "brittle_lib =
     box_lib\<lparr>STRtree := (\<lambda>gs. if length gs < 2 then Inl GEOSException else Inr gs)\<rparr>"

text \<open>A library in which the closest points cannot be computed.\<close>

definition no_nearest_lib :: "(box, box list) shapely" where
  "no_nearest_lib = box_lib\<lparr>nearest_points := (\<lambda>p b. Inl GEOSException)\<rparr>"


section \<open>Lemmas on the building blocks\<close>


lemma combine_fresh:
  "results fld = None \<Longrightarrow> combine lib rules results fld record = results(fld \<mapsto> record)"
  by (simp add: combine_def)

text \<open>With one entry per key, a key of the loop's remaining layers is never in the
  results yet, and the loop's result is, key by key, the record chosen for the layer.\<close>

lemma query_loop_result:
  assumes "distinct (map fst layers)"
    and "\<forall>f \<in> fst ` set layers. results f = None"
    and "query_loop lib rules pt force want layers results rows = Inr (res, rows')"
  shows "res F = (case map_of layers F of
                    None \<Rightarrow> results F
                  | Some L \<Rightarrow> chosen_record lib pt force F L)"
  using assms
proof (induction layers arbitrary: results rows)
  case Nil
  then show ?case by simp
next
  case (Cons a layers)
  obtain fld L where a: "a = (fld, L)" by (cases a)
  have fresh: "map_of layers fld = None"
    using Cons.prems(1) a by (simp add: map_of_eq_None_iff)
  have dist: "distinct (map fst layers)" using Cons.prems(1) by simp
  show ?case
  proof (cases "query_layer lib pt force fld L")
    case (Inl e)
    with Cons.prems(3) a show ?thesis by simp
  next
    case (Inr r)
    show ?thesis
    proof (cases r)
      case None
      with Inr Cons.prems(3) a
      have run: "query_loop lib rules pt force want layers results rows = Inr (res, rows')"
        by simp
      have "\<forall>f \<in> fst ` set layers. results f = None" using Cons.prems(2) by simp
      from Cons.IH [OF dist this run]
      have ih: "res F = (case map_of layers F of None \<Rightarrow> results F
                         | Some L \<Rightarrow> chosen_record lib pt force F L)" .
      show ?thesis
      proof (cases "F = fld")
        case True
        have "results fld = None" using Cons.prems(2) a by simp
        with ih True fresh Inr None a show ?thesis by (simp add: chosen_record_def)
      next
        case False
        with ih a show ?thesis by simp
      qed
    next
      case (Some tup)
      obtain idx sel ins geom rcd where tup: "tup = (idx, sel, ins, geom, rcd)"
        by (cases tup)
      have none: "results fld = None" using Cons.prems(2) a by simp
      from Inr Some tup Cons.prems(3) a none
      have run: "query_loop lib rules pt force want layers (results(fld \<mapsto> rcd))
                   (if want then rows @ [make_debug_row lib fld sel ins geom rcd] else rows)
                 = Inr (res, rows')"
        by (simp add: combine_fresh)
      have "\<forall>f \<in> fst ` set layers. (results(fld \<mapsto> rcd)) f = None"
        using Cons.prems(1,2) a by auto
      from Cons.IH [OF dist this run]
      have ih: "res F = (case map_of layers F of None \<Rightarrow> (results(fld \<mapsto> rcd)) F
                         | Some L \<Rightarrow> chosen_record lib pt force F L)" .
      show ?thesis
      proof (cases "F = fld")
        case True
        with ih fresh Inr Some tup a show ?thesis by (simp add: chosen_record_def)
      next
        case False
        with ih a show ?thesis by (simp split: option.split)
      qed
    qed
  qed
qed

text \<open>The debug rows added by the loop are rows of fields that got a record.\<close>

lemma query_loop_rows:
  assumes "query_loop lib rules pt force want layers results rows = Inr (res, rows')"
  shows "dbg_field ` set rows' \<subseteq>
           dbg_field ` set rows \<union>
           {f. \<exists>L. (f, L) \<in> set layers \<and> chosen_record lib pt force f L \<noteq> None}"
  using assms
proof (induction layers arbitrary: results rows)
  case Nil
  then show ?case by auto
next
  case (Cons a layers)
  obtain fld L where a: "a = (fld, L)" by (cases a)
  show ?case
  proof (cases "query_layer lib pt force fld L")
    case (Inl e)
    with Cons.prems a show ?thesis by simp
  next
    case (Inr r)
    show ?thesis
    proof (cases r)
      case None
      with Inr Cons.prems a
      have "query_loop lib rules pt force want layers results rows = Inr (res, rows')"
        by simp
      from Cons.IH [OF this]
      have "dbg_field ` set rows' \<subseteq>
              dbg_field ` set rows \<union>
              {f. \<exists>L. (f, L) \<in> set layers \<and> chosen_record lib pt force f L \<noteq> None}" .
      moreover have "{f. \<exists>L. (f, L) \<in> set layers \<and> chosen_record lib pt force f L \<noteq> None}
              \<subseteq> {f. \<exists>L. (f, L) \<in> set (a # layers) \<and> chosen_record lib pt force f L \<noteq> None}"
        by auto
      ultimately show ?thesis by blast
    next
      case (Some tup)
      obtain idx sel ins geom rcd where tup: "tup = (idx, sel, ins, geom, rcd)"
        by (cases tup)
      have here: "chosen_record lib pt force fld L \<noteq> None"
        using Inr Some tup by (simp add: chosen_record_def)
      from Inr Some tup Cons.prems a
      have "query_loop lib rules pt force want layers (combine lib rules results fld rcd)
              (if want then rows @ [make_debug_row lib fld sel ins geom rcd] else rows)
            = Inr (res, rows')"
        by simp
      from Cons.IH [OF this]
      have "dbg_field ` set rows' \<subseteq>
              dbg_field ` set (if want then rows @ [make_debug_row lib fld sel ins geom rcd]
                               else rows) \<union>
              {f. \<exists>L. (f, L) \<in> set layers \<and> chosen_record lib pt force f L \<noteq> None}" .
      moreover have "dbg_field (make_debug_row lib fld sel ins geom rcd) = fld"
        by (simp add: make_debug_row_def)
      then have "dbg_field ` set (if want then rows @ [make_debug_row lib fld sel ins geom rcd]
                               else rows) \<subseteq> dbg_field ` set rows \<union> {fld}"
        by auto
      moreover have "fld \<in> {f. \<exists>L. (f, L) \<in> set (a # layers) \<and>
                                chosen_record lib pt force f L \<noteq> None}"
        using here a by auto
      moreover have "{f. \<exists>L. (f, L) \<in> set layers \<and> chosen_record lib pt force f L \<noteq> None}
              \<subseteq> {f. \<exists>L. (f, L) \<in> set (a # layers) \<and> chosen_record lib pt force f L \<noteq> None}"
        by auto
      ultimately show ?thesis by blast
    qed
  qed
qed

text \<open>The table of combine rules has no influence when every key occurs once.\<close>

lemma query_loop_rules:
  assumes "distinct (map fst layers)"
    and "\<forall>f \<in> fst ` set layers. results f = None"
  shows "query_loop lib rules pt force want layers results rows =
         query_loop lib rules' pt force want layers results rows"
  using assms
proof (induction layers arbitrary: results rows)
  case Nil
  then show ?case by simp
next
  case (Cons a layers)
  obtain fld L where a: "a = (fld, L)" by (cases a)
  have dist: "distinct (map fst layers)" using Cons.prems(1) by simp
  have none: "results fld = None" using Cons.prems(2) a by simp
  have keep: "\<forall>f \<in> fst ` set layers. results f = None" using Cons.prems(2) by simp
  have upd: "\<forall>f \<in> fst ` set layers. (results(fld \<mapsto> rcd)) f = None" for rcd
    using Cons.prems(1,2) a by auto
  show ?case
  proof (cases "query_layer lib pt force fld L")
    case (Inl e)
    with a show ?thesis by simp
  next
    case (Inr r)
    show ?thesis
    proof (cases r)
      case None
      with Inr a Cons.IH [OF dist keep] show ?thesis by simp
    next
      case (Some tup)
      obtain idx sel ins geom rcd where tup: "tup = (idx, sel, ins, geom, rcd)"
        by (cases tup)
      have ih: "query_loop lib rules pt force want layers (results(fld \<mapsto> rcd)) rws =
                query_loop lib rules' pt force want layers (results(fld \<mapsto> rcd)) rws" for rws
        by (rule Cons.IH [OF dist upd])
      from Inr Some tup a none show ?thesis
        by (simp add: combine_fresh ih)
    qed
  qed
qed


text \<open>When no layer gives a record, the loop changes nothing.\<close>

lemma query_loop_nothing:
  assumes "\<forall>(f, L) \<in> set layers. query_layer lib pt force f L = Inr None"
  shows "query_loop lib rules pt force want layers results rows = Inr (results, rows)"
  using assms
  by (induction layers arbitrary: results rows) auto


lemma first_covering_first:
  assumes "\<forall>j \<in> set pre. \<not> covers_at lib L pt j"
    and "covers_at lib L pt i"
  shows "first_covering lib (geoms L) pt (pre @ i # post) = Some i"
  using assms
proof (induction pre)
  case Nil
  then show ?case by (auto simp: covers_at_def split: sum.splits)
next
  case (Cons j pre)
  from Cons.prems have "\<not> covers_at lib L pt j" by simp
  then have "(case py_get (geoms L) j of
                Inl e \<Rightarrow> first_covering lib (geoms L) pt (pre @ i # post)
              | Inr g \<Rightarrow>
                  (case covers lib g pt of
                     Inl e \<Rightarrow> first_covering lib (geoms L) pt (pre @ i # post)
                   | Inr b \<Rightarrow> if b then Some j
                             else first_covering lib (geoms L) pt (pre @ i # post)))
             = first_covering lib (geoms L) pt (pre @ i # post)"
    by (auto simp: covers_at_def split: sum.splits)
  with Cons show ?case by simp
qed

lemma first_covering_none:
  "\<forall>j \<in> set cands. \<not> covers_at lib L pt j \<Longrightarrow> first_covering lib (geoms L) pt cands = None"
  by (induction cands) (auto simp: covers_at_def split: sum.splits)











lemma first_covering_find:
  "first_covering lib (geoms L) pt cands = List.find (covers_at lib L pt) cands"
  by (induction cands) (auto simp: covers_at_def split: sum.splits)

subsection \<open>The example library at work\<close>

lemma box_lib_simps:
  "tree_len box_lib t = length t"
  "tree_query_point box_lib t p = Inr (RawSeq (map ItemInt (positions (\<lambda>b. box_covers b p) 0 t)))"
  "tree_query box_lib t env = Inr (RawSeq (map ItemInt (positions (box_meets env) 0 t)))"
  "tree_nearest box_lib t p = box_nearest t p"
  "buffer box_lib p r = Inr (fst p - r, snd p - r, fst p + r, snd p + r)"
  "covers box_lib b p = Inr (box_covers b p)"
  "distance box_lib b p = Inr (box_distance b p)"
  "nearest_points box_lib p b = Inr (p, box_clamp b p)"
  "STRtree box_lib gs = Inr gs"
  by (simp_all add: box_lib_def)

lemma demo_layer_simps:
  "geoms pga_layer = pga_boxes" "strtree pga_layer = Some pga_boxes"
  "attrs pga_layer = [[''pga'' \<mapsto> VFloat 0.35], [''pga'' \<mapsto> VFloat 0.5]]"
  "sources pga_layer = [''pga-earthquake.kml'', ''pga-earthquake.kml'']"
  "geoms tl_layer = tl_boxes" "strtree tl_layer = Some tl_boxes"
  "attrs tl_layer = [[''tl'' \<mapsto> VFloat 8], Map.empty]"
  "sources tl_layer = [''tl-earthquake.kml'', ''tl-earthquake.kml'']"
  by (simp_all add: pga_layer_def tl_layer_def)

lemma index_items_ints:
  "index_items lib L acc (map ItemInt ks) = Inr (acc @ ks)"
  by (induction ks arbitrary: acc) simp_all

lemma box_bbox_candidates:
  "bbox_candidates box_lib L t p = Inr (positions (\<lambda>b. box_covers b p) 0 t)"
  by (simp add: bbox_candidates_def to_index_array_def box_lib_simps index_items_ints)

lemma box_expanded_candidates:
  "expanded_candidates box_lib L t p =
     Inr (positions (box_meets (fst p - 0.45, snd p - 0.45, fst p + 0.45, snd p + 0.45)) 0 t)"
  by (simp add: expanded_candidates_def to_index_array_def box_lib_simps index_items_ints)

lemma pga_bbox_boundary: "bbox_candidates box_lib pga_layer pga_boxes (1, 2) = Inr [0, 1]"
  by (simp add: box_bbox_candidates pga_boxes_def box_covers_def)

lemma pga_far_bbox: "bbox_candidates box_lib pga_layer pga_boxes (50, 50) = Inr []"
  by (simp add: box_bbox_candidates pga_boxes_def box_covers_def)

lemma pga_far_expanded: "expanded_candidates box_lib pga_layer pga_boxes (50, 50) = Inr []"
  by (simp add: box_expanded_candidates pga_boxes_def box_meets_def)

lemma tl_far_bbox: "bbox_candidates box_lib tl_layer tl_boxes (50, 50) = Inr []"
  by (simp add: box_bbox_candidates tl_boxes_def box_covers_def)

lemma tl_far_expanded: "expanded_candidates box_lib tl_layer tl_boxes (50, 50) = Inr []"
  by (simp add: box_expanded_candidates tl_boxes_def box_meets_def)

lemma pga_far_select:
  "select_index box_lib pga_layer pga_boxes (50, 50) False = Inr (None, ''none'', False)"
  by (simp add: select_index_def pga_far_bbox pga_far_expanded)

lemma tl_far_select:
  "select_index box_lib tl_layer tl_boxes (50, 50) False = Inr (None, ''none'', False)"
  by (simp add: select_index_def tl_far_bbox tl_far_expanded)

lemma pga_far_layer: "query_layer box_lib (50, 50) False ''pga'' pga_layer = Inr None"
  by (simp add: query_layer_def demo_layer_simps box_lib_simps pga_far_select)

lemma tl_far_layer: "query_layer box_lib (50, 50) False ''tl'' tl_layer = Inr None"
  by (simp add: query_layer_def demo_layer_simps box_lib_simps tl_far_select)

lemma pga_covers_at:
  "covers_at box_lib pga_layer (1, 2) 0"
  by (simp add: covers_at_def py_get_def demo_layer_simps box_lib_simps pga_boxes_def box_covers_def)

lemma pga_boundary_select:
  "select_index box_lib pga_layer pga_boxes (1, 2) force = Inr (Some 0, ''covers'', True)"
  by (simp add: select_index_def box_bbox_candidates py_get_def demo_layer_simps box_lib_simps
      pga_boxes_def box_covers_def)

lemma pga_boundary_layer:
  "query_layer box_lib (1, 2) force ''pga'' pga_layer =
     Inr (Some (0, ''covers'', True, (0, 0, 2, 2),
       \<lparr>rec_value = VFloat 0.35, rec_unit = ''g'', rec_source = ''pga-earthquake.kml'',
        rec_distance_km = Some 0\<rparr>))"
  by (simp add: query_layer_def pga_boundary_select demo_layer_simps box_lib_simps)
     (simp add: py_get_def pga_boxes_def UNITS_def point_geom_distance_km_def box_lib_simps
        box_covers_def demo_layer_simps)

subsection \<open>Consequences for the whole query\<close>

lemma query_loop_skip:
  assumes "\<forall>(f, L) \<in> set layers. f = F \<longrightarrow> query_layer lib pt force f L = Inr None"
  shows "query_loop lib rules pt force want layers results rows =
         query_loop lib rules pt force want (filter (\<lambda>(f, L). f \<noteq> F) layers) results rows"
  using assms
proof (induction layers arbitrary: results rows)
  case Nil
  then show ?case by simp
next
  case (Cons a layers)
  obtain fld L where a: "a = (fld, L)" by (cases a)
  have rest: "\<forall>(f, L) \<in> set layers. f = F \<longrightarrow> query_layer lib pt force f L = Inr None"
    using Cons.prems by simp
  show ?case
  proof (cases "fld = F")
    case True
    with Cons.prems a have "query_layer lib pt force fld L = Inr None" by simp
    with True a Cons.IH [OF rest] show ?thesis by simp
  next
    case False
    with a Cons.IH [OF rest] show ?thesis
      by (simp split: sum.split option.split)
  qed
qed

lemma first_assignment_only_distinct:
  assumes "distinct (map fst layers)"
    and "\<forall>f \<in> fst ` set layers. results f = None"
  shows "first_assignment_only lib rules pt force layers results"
  using assms
proof (induction layers arbitrary: results)
  case Nil
  then show ?case by simp
next
  case (Cons a layers)
  obtain fld L where a: "a = (fld, L)" by (cases a)
  have dist: "distinct (map fst layers)" using Cons.prems(1) by simp
  have none: "results fld = None" using Cons.prems(2) a by simp
  have keep: "\<forall>f \<in> fst ` set layers. results f = None" using Cons.prems(2) by simp
  have upd: "\<forall>f \<in> fst ` set layers. (results(fld \<mapsto> rcd)) f = None" for rcd
    using Cons.prems(1,2) a by auto
  have ih: "first_assignment_only lib rules pt force layers (results(fld \<mapsto> rcd))" for rcd
    by (rule Cons.IH [OF dist upd])
  from a none Cons.IH [OF dist keep] show ?case
    by (simp add: combine_fresh ih split: sum.split option.split)
qed

text \<open>A field whose layer gives no record is absent from the values and from the debug
  rows.\<close>

lemma field_absent:
  assumes dist: "distinct (map fst layers)"
    and mem: "(F, L) \<in> set layers"
    and skip: "query_layer lib pt force F L = Inr None"
    and run: "query_loop lib rules pt force want layers Map.empty [] = Inr (res, rows)"
  shows "res F = None \<and> F \<notin> dbg_field ` set rows"
proof -
  have lookup: "map_of layers F = Some L" using dist mem by simp
  have none: "chosen_record lib pt force F L = None"
    using skip by (simp add: chosen_record_def)
  have "res F = (case map_of layers F of None \<Rightarrow> Map.empty F
                 | Some L \<Rightarrow> chosen_record lib pt force F L)"
    by (rule query_loop_result [OF dist _ run]) simp
  with lookup none have r: "res F = None" by simp
  from query_loop_rows [OF run]
  have "dbg_field ` set rows \<subseteq>
          {f. \<exists>L. (f, L) \<in> set layers \<and> chosen_record lib pt force f L \<noteq> None}"
    by simp
  moreover have "F \<notin> {f. \<exists>L. (f, L) \<in> set layers \<and> chosen_record lib pt force f L \<noteq> None}"
  proof
    assume "F \<in> {f. \<exists>L. (f, L) \<in> set layers \<and> chosen_record lib pt force f L \<noteq> None}"
    then obtain L' where "(F, L') \<in> set layers" and ne: "chosen_record lib pt force F L' \<noteq> None"
      by auto
    with dist lookup have "L' = L" by simp
    with ne none show False by simp
  qed
  ultimately have "F \<notin> dbg_field ` set rows" by auto
  with r show ?thesis by simp
qed

lemma query_point_unfold:
  "fst (query_point_with rules lib lat lon force want s) =
     (case query_loop lib rules (lon, lat) force want (LAYERS s) Map.empty [] of
        Inl e \<Rightarrow> Inl e
      | Inr (results, debug_rows) \<Rightarrow> Inr (results, if want then Some debug_rows else None))"
  by (simp add: query_point_with_def)

lemma query_point_state: "snd (query_point_with rules lib lat lon force want s) = s"
  by (simp add: query_point_with_def)

lemma query_point_result:
  assumes "fst (query_point_with rules lib lat lon force want s) = Inr (res, dbg)"
  shows "\<exists>rows. query_loop lib rules (lon, lat) force want (LAYERS s) Map.empty [] = Inr (res, rows)
           \<and> dbg = (if want then Some rows else None)"
  using assms by (auto simp: query_point_unfold split: sum.splits)

lemma no_candidates_no_record:
  assumes "strtree L = Some t"
    and "bbox_candidates lib L t pt = Inr []"
    and "expanded_candidates lib L t pt = Inr []"
  shows "query_layer lib pt False fld L = Inr None"
  using assms by (simp add: query_layer_def select_index_def)


subsection \<open>Loading\<close>

lemma add_feats_wf: "layer_wf L \<Longrightarrow> layer_wf (add_feats fld L feats)"
  by (induction fld L feats rule: add_feats.induct) (simp_all add: layer_wf_def)

lemma add_feats_no_index: "strtree (add_feats fld L feats) = strtree L"
  by (induction fld L feats rule: add_feats.induct) simp_all

lemma load_file_invariant:
  assumes "distinct (map fst layers)" and "list_all (\<lambda>(f, L). layer_wf L) layers"
  shows "distinct (map fst (load_file parse layers f)) \<and>
         list_all (\<lambda>(f, L). layer_wf L) (load_file parse layers f)"
proof (cases "detect_field (path_name f)")
  case None
  with assms show ?thesis by (simp add: load_file_def)
next
  case (Some fld)
  define L where "L = (case map_of layers fld of None \<Rightarrow> new_Layer fld | Some L0 \<Rightarrow> L0)"
  have "layer_wf L"
  proof (cases "map_of layers fld")
    case None
    then show ?thesis by (simp add: L_def new_Layer_def layer_wf_def)
  next
    case (Some L0)
    then have "(fld, L0) \<in> set layers" by (rule map_of_SomeD)
    with assms(2) Some show ?thesis by (auto simp: L_def list_all_iff)
  qed
  then have wf: "layer_wf (add_feats fld L (parse f fld))" by (rule add_feats_wf)
  have "set (AList.update fld (add_feats fld L (parse f fld)) layers)
          \<subseteq> insert (fld, add_feats fld L (parse f fld)) (set layers)"
    by (induction layers) auto
  with wf assms(2)
  have "list_all (\<lambda>(f, L). layer_wf L) (AList.update fld (add_feats fld L (parse f fld)) layers)"
    by (auto simp: list_all_iff)
  moreover have "distinct (map fst (AList.update fld (add_feats fld L (parse f fld)) layers))"
    using assms(1) by (rule distinct_update)
  ultimately show ?thesis using Some by (simp add: load_file_def L_def Let_def)
qed

lemma group_layers_invariant:
  "distinct (map fst (group_layers parse files :: ('g, 't) registry)) \<and>
   list_all (\<lambda>(f, L). layer_wf L) (group_layers parse files :: ('g, 't) registry)"
proof -
  have "distinct (map fst (foldl (load_file parse) layers files)) \<and>
        list_all (\<lambda>(f, L). layer_wf L) (foldl (load_file parse) layers files)"
    if "distinct (map fst layers)" "list_all (\<lambda>(f, L). layer_wf L) layers"
    for layers :: "('g, 't) registry"
    using that
  proof (induction files arbitrary: layers)
    case Nil
    then show ?case by simp
  next
    case (Cons f files)
    from load_file_invariant [OF Cons.prems, of parse f] Cons.IH show ?case by simp
  qed
  from this [of "[]"] show ?thesis by (simp add: group_layers_def)
qed

lemma build_index_wf:
  "build_index lib L = Inr L' \<Longrightarrow> layer_wf L \<Longrightarrow> layer_wf L'"
  by (auto simp: build_index_def layer_wf_def Let_def split: if_splits sum.splits)

lemma build_all_fails:
  "(f, L) \<in> set layers \<Longrightarrow> build_index lib L = Inl e \<Longrightarrow> \<exists>e'. build_all lib layers = Inl e'"
  by (induction layers) (auto split: sum.splits)

lemma build_all_succeeds:
  assumes "\<forall>(f, L) \<in> set layers. \<exists>L'. build_index lib L = Inr L'"
  shows "\<exists>reg. build_all lib layers = Inr reg \<and>
           list_all2 (\<lambda>(f, L) (f', L'). f' = f \<and> build_index lib L = Inr L') layers reg"
  using assms
proof (induction layers)
  case Nil
  then show ?case by simp
next
  case (Cons a layers)
  obtain fld L where a: "a = (fld, L)" by (cases a)
  from Cons.prems a obtain L' where L': "build_index lib L = Inr L'" by auto
  from Cons.prems have "\<forall>(f, L) \<in> set layers. \<exists>L'. build_index lib L = Inr L'" by simp
  from Cons.IH [OF this] obtain reg where "build_all lib layers = Inr reg"
    and "list_all2 (\<lambda>(f, L) (f', L'). f' = f \<and> build_index lib L = Inr L') layers reg"
    by auto
  with a L' show ?case by simp
qed

lemma build_all_built:
  "build_all lib layers = Inr reg \<Longrightarrow>
     list_all2 (\<lambda>(f, L) (f', L'). f' = f \<and> build_index lib L = Inr L') layers reg"
  by (induction layers arbitrary: reg) (auto split: sum.splits)

lemma built_registry:
  assumes "list_all2 (\<lambda>(f, L) (f', L'). f' = f \<and> build_index lib L = Inr L') layers reg"
  shows "map fst reg = map fst layers \<and>
         (list_all (\<lambda>(f, L). layer_wf L) layers \<longrightarrow> registry_wf reg)"
  using assms
  by (induction rule: list_all2_induct) (auto simp: registry_wf_def intro: build_index_wf)

text \<open>What \<^verbatim>\<open>load_layers\<close> returns is a dictionary whose layers have parallel lists.\<close>

lemma load_layers_registry:
  assumes "load_layers lib parse files = Inr reg"
  shows "distinct (map fst reg) \<and> registry_wf reg"
proof -
  let ?ls = "group_layers parse files :: ('a, 'b) registry"
  from assms have "list_all2 (\<lambda>(f, L) (f', L'). f' = f \<and> build_index lib L = Inr L') ?ls reg"
    by (simp add: load_layers_def build_all_built)
  from built_registry [OF this]
  have "map fst reg = map fst ?ls"
    and "list_all (\<lambda>(f, L). layer_wf L) ?ls \<longrightarrow> registry_wf reg" by simp_all
  moreover have "distinct (map fst ?ls) \<and> list_all (\<lambda>(f, L). layer_wf L) ?ls"
    by (rule group_layers_invariant)
  ultimately show ?thesis by simp
qed

subsection \<open>Rounding and the haversine formula\<close>

lemma round_half_even_near: "\<bar>of_int (round_half_even x) - x\<bar> \<le> 1 / 2"
proof -
  have "of_int \<lfloor>x\<rfloor> \<le> x" "x < of_int \<lfloor>x\<rfloor> + 1" by linarith+
  then show ?thesis by (auto simp: round_half_even_def Let_def)
qed

lemma py_round_near: "\<bar>py_round x n - x\<bar> \<le> 1 / (2 * 10 ^ n)"
proof -
  define k where "k = round_half_even (x * 10 ^ n)"
  have near: "\<bar>of_int k - x * 10 ^ n\<bar> \<le> 1 / 2"
    unfolding k_def by (rule round_half_even_near)
  have "py_round x n - x = (of_int k - x * 10 ^ n) / 10 ^ n"
    by (simp add: py_round_def k_def diff_divide_distrib)
  then have "\<bar>py_round x n - x\<bar> = \<bar>of_int k - x * 10 ^ n\<bar> / 10 ^ n"
    by (simp add: abs_divide)
  also have "\<dots> \<le> (1 / 2) / 10 ^ n"
    using near by (rule divide_right_mono) simp
  finally show ?thesis by simp
qed

lemma py_round_decimal: "\<exists>k :: int. py_round x n = of_int k / 10 ^ n"
  by (auto simp: py_round_def)

lemma cos_radians_nonneg:
  assumes "\<bar>lat\<bar> \<le> 90"
  shows "0 \<le> cos (radians lat)"
proof -
  from assms have "lat \<le> 90" "- 90 \<le> lat" by simp_all
  then have "lat * pi \<le> 90 * pi" "(- 90) * pi \<le> lat * pi"
    using pi_ge_zero by (intro mult_right_mono; simp)+
  then have "- (pi / 2) \<le> radians lat" "radians lat \<le> pi / 2"
    by (simp_all add: radians_def)
  then show ?thesis by (rule cos_ge_zero)
qed

lemma haversine_identity:
  fixes p1 p2 :: real
  shows "(sin ((p2 - p1) / 2))\<^sup>2 + cos p1 * cos p2 = (1 + cos (p1 + p2)) / 2"
proof -
  have "2 * ((p2 - p1) / 2) = p2 - p1" by simp
  with cos_double_sin [of "(p2 - p1) / 2"]
  have "cos (p2 - p1) = 1 - 2 * (sin ((p2 - p1) / 2))\<^sup>2" by (simp only:)
  then have "(sin ((p2 - p1) / 2))\<^sup>2 = (1 - cos (p2 - p1)) / 2" by simp
  then show ?thesis by (simp add: cos_diff cos_add field_simps)
qed

lemma haversine_arg_bounds:
  fixes p1 p2 d :: real
  assumes "0 \<le> cos p1 * cos p2"
  shows "0 \<le> (sin ((p2 - p1) / 2))\<^sup>2 + cos p1 * cos p2 * (sin (d / 2))\<^sup>2"
    and "(sin ((p2 - p1) / 2))\<^sup>2 + cos p1 * cos p2 * (sin (d / 2))\<^sup>2 \<le> 1"
proof -
  have sq: "0 \<le> (sin (d / 2))\<^sup>2" "(sin (d / 2))\<^sup>2 \<le> 1"
    by (simp_all add: abs_square_le_1)
  from assms sq(1) have "0 \<le> cos p1 * cos p2 * (sin (d / 2))\<^sup>2" by (rule mult_nonneg_nonneg)
  then show "0 \<le> (sin ((p2 - p1) / 2))\<^sup>2 + cos p1 * cos p2 * (sin (d / 2))\<^sup>2"
    by simp
  have "cos p1 * cos p2 * (sin (d / 2))\<^sup>2 \<le> cos p1 * cos p2 * 1"
    using sq(2) assms by (rule mult_left_mono)
  then have "(sin ((p2 - p1) / 2))\<^sup>2 + cos p1 * cos p2 * (sin (d / 2))\<^sup>2
               \<le> (sin ((p2 - p1) / 2))\<^sup>2 + cos p1 * cos p2"
    by simp
  also have "\<dots> = (1 + cos (p1 + p2)) / 2"
    by (rule haversine_identity)
  also have "\<dots> \<le> 1" by simp
  finally show "(sin ((p2 - p1) / 2))\<^sup>2 + cos p1 * cos p2 * (sin (d / 2))\<^sup>2 \<le> 1" .
qed

text \<open>In real arithmetic the formula is defined for all latitudes between the poles.\<close>

lemma haversine_km_formula:
  "haversine_km lat1 lon1 lat2 lon2 = Inr d \<Longrightarrow> d = great_circle_km (lon1, lat1) (lon2, lat2)"
  by (auto simp: haversine_km_def great_circle_km_def math_sqrt_def math_asin_def Let_def
      split: if_splits)

lemma haversine_km_valid_latitudes:
  assumes "\<bar>lat1\<bar> \<le> 90" and "\<bar>lat2\<bar> \<le> 90"
  shows "haversine_km lat1 lon1 lat2 lon2 = Inr (great_circle_km (lon1, lat1) (lon2, lat2))"
proof -
  let ?a = "(sin (radians (lat2 - lat1) / 2))\<^sup>2 +
            cos (radians lat1) * cos (radians lat2) * (sin (radians (lon2 - lon1) / 2))\<^sup>2"
  have c: "0 \<le> cos (radians lat1) * cos (radians lat2)"
    using assms by (intro mult_nonneg_nonneg cos_radians_nonneg)
  have r: "radians (lat2 - lat1) = radians lat2 - radians lat1"
    by (simp add: radians_def diff_divide_distrib left_diff_distrib)
  from haversine_arg_bounds [OF c, of "radians (lon2 - lon1)"]
  have a0: "0 \<le> ?a" and a1: "?a \<le> 1" by (simp_all add: r)
  have s0: "0 \<le> sqrt ?a" using a0 by (rule real_sqrt_ge_zero)
  have s1: "sqrt ?a \<le> 1" using a1 by simp
  have "\<not> sqrt ?a < - 1" using s0 by linarith
  moreover have "\<not> 1 < sqrt ?a" using s1 by linarith
  ultimately show ?thesis using a0
    by (simp add: haversine_km_def great_circle_km_def math_sqrt_def math_asin_def Let_def)
qed

subsection \<open>The pattern of \<^verbatim>\<open>safe_number\<close>\<close>

lemma class_facts:
  "is_digit c \<Longrightarrow> \<not> is_dot c" "is_digit c \<Longrightarrow> \<not> is_sign c" "is_sign c \<Longrightarrow> \<not> is_dot c"
  by (auto simp: is_digit_def is_dot_def is_sign_def)

lemma rmatch_digits_star: "rmatch [(is_digit, Star)] s = Some (dropWhile is_digit s)"
  by (induction s) simp_all

lemma rmatch_fraction:
  assumes "rest = [] \<or> \<not> is_digit (hd rest)"
  shows "rmatch [(is_dot, Opt), (is_digit, Plus)] rest = frac_rest rest"
proof (cases rest)
  case Nil
  then show ?thesis by (simp add: frac_rest_def)
next
  case (Cons c r2)
  with assms have nd: "\<not> is_digit c" by simp
  show ?thesis
  proof (cases r2)
    case Nil
    with Cons nd show ?thesis by (simp add: frac_rest_def)
  next
    case (Cons d r3)
    with \<open>rest = c # r2\<close> nd show ?thesis
      by (simp add: frac_rest_def rmatch_digits_star)
  qed
qed

lemma rmatch_body_split:
  assumes "\<forall>d \<in> set ds. is_digit d" and "rest = [] \<or> \<not> is_digit (hd rest)"
  shows "rmatch [(is_digit, Star), (is_dot, Opt), (is_digit, Plus)] (ds @ rest) =
           (case frac_rest rest of
              Some r \<Rightarrow> Some r
            | None \<Rightarrow> if ds = [] then None else Some rest)"
  using assms(1)
proof (induction ds)
  case Nil
  have "rmatch [(is_digit, Star), (is_dot, Opt), (is_digit, Plus)] rest =
        rmatch [(is_dot, Opt), (is_digit, Plus)] rest"
    using assms(2) by (cases rest) simp_all
  with rmatch_fraction [OF assms(2)] show ?case by (simp split: option.split)
next
  case (Cons d ds)
  then have d: "is_digit d" and ih:
    "rmatch [(is_digit, Star), (is_dot, Opt), (is_digit, Plus)] (ds @ rest) =
       (case frac_rest rest of Some r \<Rightarrow> Some r | None \<Rightarrow> if ds = [] then None else Some rest)"
    by simp_all
  have last: "rmatch [(is_dot, Opt), (is_digit, Plus)] (d # rest) = Some rest"
    using d assms(2) by (cases rest) (simp_all add: class_facts rmatch_digits_star)
  show ?case
  proof (cases "frac_rest rest")
    case (Some r)
    with d ih show ?thesis by simp
  next
    case None
    show ?thesis
    proof (cases "ds = []")
      case True
      with d ih None last show ?thesis by simp
    next
      case False
      with d ih None show ?thesis by simp
    qed
  qed
qed

lemma rmatch_body: "rmatch [(is_digit, Star), (is_dot, Opt), (is_digit, Plus)] s = num_body s"
proof -
  have "\<forall>d \<in> set (takeWhile is_digit s). is_digit d" by (auto dest: set_takeWhileD)
  moreover have "dropWhile is_digit s = [] \<or> \<not> is_digit (hd (dropWhile is_digit s))"
    using hd_dropWhile [of is_digit s] by blast
  ultimately have
    "rmatch [(is_digit, Star), (is_dot, Opt), (is_digit, Plus)]
       (takeWhile is_digit s @ dropWhile is_digit s) =
     (case frac_rest (dropWhile is_digit s) of
        Some r \<Rightarrow> Some r
      | None \<Rightarrow> if takeWhile is_digit s = [] then None else Some (dropWhile is_digit s))"
    by (rule rmatch_body_split)
  then show ?thesis by (simp add: num_body_def)
qed

lemma num_body_no_sign: "is_sign x \<Longrightarrow> num_body (x # xs) = None"
  by (auto simp: num_body_def frac_rest_def class_facts)

lemma rmatch_number_pattern:
  "rmatch number_pattern s =
     (case s of [] \<Rightarrow> None | x # xs \<Rightarrow> if is_sign x then num_body xs else num_body s)"
proof (cases s)
  case Nil
  then show ?thesis by (simp add: number_pattern_def)
next
  case (Cons x xs)
  let ?body = "[(is_digit, Star), (is_dot, Opt), (is_digit, Plus)]"
  have "rmatch number_pattern (x # xs) =
          (if is_sign x
           then (case rmatch ?body xs of Some r \<Rightarrow> Some r | None \<Rightarrow> rmatch ?body (x # xs))
           else rmatch ?body (x # xs))"
    unfolding number_pattern_def by (simp only: rmatch.simps)
  also have "\<dots> = (if is_sign x then num_body xs else num_body (x # xs))"
    by (simp only: rmatch_body) (simp add: num_body_no_sign split: option.split)
  finally show ?thesis using Cons by simp
qed

lemma frac_rest_shorter: "frac_rest rest = Some r \<Longrightarrow> length r \<le> length rest"
proof -
  assume a: "frac_rest rest = Some r"
  then obtain c r2 where "rest = c # r2" and "r = dropWhile is_digit r2"
    by (auto simp: frac_rest_def split: list.splits if_splits)
  moreover have "length (dropWhile is_digit r2) \<le> length r2" by (rule length_dropWhile_le)
  ultimately show ?thesis by simp
qed

lemma unsigned_numeral_start:
  assumes "unsigned_numeral b"
  shows "b \<noteq> [] \<and> (is_digit (hd b) \<or> is_dot (hd b))"
proof -
  from assms obtain ip fd where d: "digits ip" "digits fd"
    and c: "(b = ip \<and> ip \<noteq> []) \<or> (b = ip @ ''.'' @ fd \<and> fd \<noteq> [])"
    by (auto simp: unsigned_numeral_def)
  show ?thesis
  proof (cases ip)
    case Nil
    with c show ?thesis by (auto simp: is_dot_def)
  next
    case (Cons x xs)
    with d c show ?thesis by (auto simp: digits_def)
  qed
qed

lemma num_body_sound:
  assumes "num_body s = Some r"
  shows "\<exists>b. s = b @ r \<and> unsigned_numeral b"
proof -
  let ?ds = "takeWhile is_digit s" and ?rest = "dropWhile is_digit s"
  have s: "s = ?ds @ ?rest" by simp
  have ds: "digits ?ds" by (auto simp: digits_def list_all_iff dest: set_takeWhileD)
  show ?thesis
  proof (cases "frac_rest ?rest")
    case None
    with assms have "?ds \<noteq> []" and r: "r = ?rest"
      by (auto simp: num_body_def split: if_splits)
    with ds have "unsigned_numeral ?ds" by (auto simp: unsigned_numeral_def digits_def)
    with s r show ?thesis by metis
  next
    case (Some r')
    with assms have r: "r = r'" by (simp add: num_body_def)
    from Some obtain c r2 where rest: "?rest = c # r2" and c: "is_dot c"
      and r2: "r2 \<noteq> []" "is_digit (hd r2)" and r': "r' = dropWhile is_digit r2"
      by (auto simp: frac_rest_def split: list.splits if_splits)
    let ?fd = "takeWhile is_digit r2"
    have fd: "digits ?fd" by (auto simp: digits_def list_all_iff dest: set_takeWhileD)
    have ne: "?fd \<noteq> []" using r2 by (cases r2) auto
    have "s = (?ds @ ''.'' @ ?fd) @ r"
    proof -
      have "?rest = ''.'' @ ?fd @ dropWhile is_digit r2"
        using rest c by (simp add: is_dot_def)
      with s r r' show ?thesis by (metis append.assoc)
    qed
    moreover have "unsigned_numeral (?ds @ ''.'' @ ?fd)"
      using ds fd ne unfolding unsigned_numeral_def by blast
    ultimately show ?thesis by blast
  qed
qed

lemma num_body_longest:
  assumes "unsigned_numeral b"
  shows "\<exists>r. num_body (b @ suf) = Some r \<and> length r \<le> length suf"
proof -
  from assms obtain ip fd where ip: "digits ip" and fd: "digits fd"
    and c: "(b = ip \<and> ip \<noteq> []) \<or> (b = ip @ ''.'' @ fd \<and> fd \<noteq> [])"
    by (auto simp: unsigned_numeral_def)
  have ipd: "\<forall>x \<in> set ip. is_digit x" using ip by (simp add: digits_def list_all_iff)
  have fdd: "\<forall>x \<in> set fd. is_digit x" using fd by (simp add: digits_def list_all_iff)
  from c show ?thesis
  proof
    assume a: "b = ip \<and> ip \<noteq> []"
    have t: "takeWhile is_digit (b @ suf) = ip @ takeWhile is_digit suf"
      using a ipd by (simp add: takeWhile_append2)
    have d: "dropWhile is_digit (b @ suf) = dropWhile is_digit suf"
      using a ipd by (simp add: dropWhile_append2)
    have le: "length (dropWhile is_digit suf) \<le> length suf" by (rule length_dropWhile_le)
    show ?thesis
    proof (cases "frac_rest (dropWhile is_digit suf)")
      case None
      with t d a le show ?thesis by (simp add: num_body_def)
    next
      case (Some r)
      from frac_rest_shorter [OF this] le have "length r \<le> length suf" by simp
      with Some d show ?thesis by (simp add: num_body_def)
    qed
  next
    assume a: "b = ip @ ''.'' @ fd \<and> fd \<noteq> []"
    have nd: "\<not> is_digit CHR ''.''" by (simp add: is_digit_def)
    have d: "dropWhile is_digit (b @ suf) = CHR ''.'' # fd @ suf"
      using a ipd nd by (simp add: dropWhile_append2)
    have h: "is_digit (hd (fd @ suf))" using a fdd by (cases fd) auto
    have "frac_rest (CHR ''.'' # fd @ suf) = Some (dropWhile is_digit (fd @ suf))"
      using a h by (simp add: frac_rest_def is_dot_def)
    moreover have "dropWhile is_digit (fd @ suf) = dropWhile is_digit suf"
      using fdd by (simp add: dropWhile_append2)
    moreover have "length (dropWhile is_digit suf) \<le> length suf" by (rule length_dropWhile_le)
    ultimately show ?thesis using d by (simp add: num_body_def)
  qed
qed

lemma number_pattern_sound:
  assumes "rmatch number_pattern s = Some r"
  shows "\<exists>m. s = m @ r \<and> is_numeral m"
proof (cases s)
  case Nil
  with assms show ?thesis by (simp add: rmatch_number_pattern)
next
  case (Cons x xs)
  show ?thesis
  proof (cases "is_sign x")
    case True
    with assms Cons have "num_body xs = Some r" by (simp add: rmatch_number_pattern)
    from num_body_sound [OF this] obtain b where "xs = b @ r" "unsigned_numeral b" by blast
    with Cons True have "s = (x # b) @ r" "is_numeral (x # b)" by (auto simp: is_numeral_def)
    then show ?thesis by blast
  next
    case False
    with assms Cons have "num_body s = Some r" by (simp add: rmatch_number_pattern)
    from num_body_sound [OF this] show ?thesis by (auto simp: is_numeral_def)
  qed
qed

lemma number_pattern_longest:
  assumes "is_numeral m"
  shows "\<exists>r. rmatch number_pattern (m @ suf) = Some r \<and> length r \<le> length suf"
proof -
  from assms consider (plain) "unsigned_numeral m"
    | (signed) c b where "is_sign c" "m = c # b" "unsigned_numeral b"
    by (auto simp: is_numeral_def)
  then show ?thesis
  proof cases
    case plain
    from unsigned_numeral_start [OF plain] obtain x xs where m: "m = x # xs"
      and x: "is_digit x \<or> is_dot x" by (cases m) auto
    from x have "\<not> is_sign x" by (auto simp: is_digit_def is_dot_def is_sign_def)
    with m have "rmatch number_pattern (m @ suf) = num_body (m @ suf)"
      by (simp add: rmatch_number_pattern)
    with num_body_longest [OF plain, of suf] show ?thesis by simp
  next
    case signed
    then have "rmatch number_pattern (m @ suf) = num_body (b @ suf)"
      by (simp add: rmatch_number_pattern)
    with num_body_longest [OF signed(3), of suf] show ?thesis by simp
  qed
qed

lemma is_numeral_nonempty: "is_numeral m \<Longrightarrow> m \<noteq> []"
  using unsigned_numeral_start by (auto simp: is_numeral_def)

text \<open>\<^verbatim>\<open>float\<close> accepts every is_numeral.\<close>

lemma float_body_total:
  assumes "unsigned_numeral b"
  shows "\<exists>v. float_body sg b = Inr v"
proof -
  from assms obtain ip fd where ip: "digits ip" and fd: "digits fd"
    and c: "(b = ip \<and> ip \<noteq> []) \<or> (b = ip @ ''.'' @ fd \<and> fd \<noteq> [])"
    by (auto simp: unsigned_numeral_def)
  have ipd: "\<forall>x \<in> set ip. is_digit x" using ip by (simp add: digits_def list_all_iff)
  from c show ?thesis
  proof
    assume a: "b = ip \<and> ip \<noteq> []"
    from ipd have f1: "dropWhile is_digit ip = []" and f2: "takeWhile is_digit ip = ip"
      by simp_all
    have "float_body sg ip = Inr (sg * real (digits_val ip))"
      unfolding float_body_def f1 f2 using a by simp
    with a show ?thesis by simp
  next
    assume a: "b = ip @ ''.'' @ fd \<and> fd \<noteq> []"
    have nd: "\<not> is_digit CHR ''.''" by (simp add: is_digit_def)
    from ipd nd have f1: "dropWhile is_digit (ip @ ''.'' @ fd) = CHR ''.'' # fd"
      by (simp add: dropWhile_append2)
    have "\<exists>v. float_body sg (ip @ ''.'' @ fd) = Inr v"
      unfolding float_body_def f1 using a fd by (simp add: is_dot_def digits_def)
    with a show ?thesis by simp
  qed
qed

lemma float_numeral_total:
  assumes "is_numeral m"
  shows "\<exists>v. float_numeral m = Inr v"
proof -
  from assms consider (plain) "unsigned_numeral m"
    | (signed) c b where "is_sign c" "m = c # b" "unsigned_numeral b"
    by (auto simp: is_numeral_def)
  then show ?thesis
  proof cases
    case plain
    from unsigned_numeral_start [OF plain] obtain x xs where m: "m = x # xs"
      and x: "is_digit x \<or> is_dot x" by (cases m) auto
    from x have "x \<noteq> CHR ''-''" "x \<noteq> CHR ''+''" by (auto simp: is_digit_def is_dot_def)
    with m have "float_numeral m = float_body 1 m" by (simp add: float_numeral_def)
    with float_body_total [OF plain, of 1] show ?thesis by simp
  next
    case signed
    then have "float_numeral m = float_body (- 1) b \<or> float_numeral m = float_body 1 b"
      by (auto simp: float_numeral_def is_sign_def)
    with float_body_total [OF signed(3)] show ?thesis by metis
  qed
qed

lemma number_pattern_no_match:
  assumes "rmatch number_pattern s = None" and "s = m @ suf"
  shows "\<not> is_numeral m"
proof
  assume "is_numeral m"
  from number_pattern_longest [OF this, of suf] assms show False by simp
qed

lemma findall_no_match:
  "rmatch pat (x # xs) = None \<Longrightarrow> findall pat (x # xs) = findall pat xs"
  by (simp add: findall.simps)

lemma findall_match:
  "rmatch pat s = Some r \<Longrightarrow> \<exists>ms. findall pat s = take (length s - length r) s # ms"
  by (simp add: findall.simps)

text \<open>The first element of \<^verbatim>\<open>findall\<close> is the first is_numeral of the string; there is none
  exactly when the string contains no is_numeral.\<close>

lemma findall_first_numeral:
  "(findall number_pattern s = [] \<longrightarrow> \<not> has_numeral s) \<and>
   (\<forall>m0 ms. findall number_pattern s = m0 # ms \<longrightarrow> first_numeral s m0)"
proof (induction s)
  case Nil
  have "\<not> has_numeral []"
    using is_numeral_nonempty by (auto simp: has_numeral_def)
  moreover have "findall number_pattern [] = []"
    by (simp add: findall.simps rmatch_number_pattern)
  ultimately show ?case by simp
next
  case (Cons x xs)
  show ?case
  proof (cases "rmatch number_pattern (x # xs)")
    case None
    then have step: "findall number_pattern (x # xs) = findall number_pattern xs"
      by (rule findall_no_match)
    have nohead: "\<not> is_numeral m" if "x # xs = m @ suf" for m suf
      using number_pattern_no_match [OF None that] .
    have a: "\<not> has_numeral (x # xs)" if "findall number_pattern xs = []"
    proof
      assume "has_numeral (x # xs)"
      then obtain pre m suf where occ: "x # xs = pre @ m @ suf" and num: "is_numeral m"
        by (auto simp: has_numeral_def)
      show False
      proof (cases pre)
        case Nil
        with occ num nohead show False by simp
      next
        case (Cons y p)
        with occ have "xs = p @ m @ suf" by simp
        with num have "has_numeral xs" by (auto simp: has_numeral_def)
        with Cons.IH that show False by simp
      qed
    qed
    have b: "first_numeral (x # xs) m0" if "findall number_pattern xs = m0 # ms" for m0 ms
    proof -
      from Cons.IH that have "first_numeral xs m0" by blast
      then obtain pre0 suf0 where occ0: "xs = pre0 @ m0 @ suf0" and num0: "is_numeral m0"
        and least0: "\<forall>pre' m' suf'. xs = pre' @ m' @ suf' \<and> is_numeral m' \<longrightarrow>
               length pre0 < length pre' \<or> (length pre0 = length pre' \<and> length m' \<le> length m0)"
        by (auto simp: first_numeral_def)
      have "length (x # pre0) < length pre' \<or>
            (length (x # pre0) = length pre' \<and> length m' \<le> length m0)"
        if occ: "x # xs = pre' @ m' @ suf'" and num: "is_numeral m'" for pre' m' suf'
      proof (cases pre')
        case Nil
        with occ num nohead show ?thesis by simp
      next
        case (Cons y p)
        with occ have "xs = p @ m' @ suf'" by simp
        with least0 num have
          "length pre0 < length p \<or> (length pre0 = length p \<and> length m' \<le> length m0)"
          by blast
        with Cons show ?thesis by auto
      qed
      moreover have "x # xs = (x # pre0) @ m0 @ suf0" using occ0 by simp
      ultimately show ?thesis using num0 unfolding first_numeral_def by blast
    qed
    from a b step show ?thesis by simp
  next
    case (Some r)
    from number_pattern_sound [OF Some] obtain m where occ: "x # xs = m @ r"
      and num: "is_numeral m" by blast
    from findall_match [OF Some] obtain ms where
      "findall number_pattern (x # xs) = take (length (x # xs) - length r) (x # xs) # ms"
      by blast
    moreover have "take (length (x # xs) - length r) (x # xs) = m"
      using occ by simp
    ultimately have fa: "findall number_pattern (x # xs) = m # ms" by simp
    have "length m' \<le> length m" if o: "x # xs = m' @ suf'" and n: "is_numeral m'" for m' suf'
    proof -
      from number_pattern_longest [OF n, of suf'] o Some have "length r \<le> length suf'" by simp
      moreover have "length m + length r = length m' + length suf'"
        using occ o by (metis length_append)
      ultimately show ?thesis by simp
    qed
    then have "length ([] :: string) < length pre' \<or>
           (length ([] :: string) = length pre' \<and> length m' \<le> length m)"
      if "x # xs = pre' @ m' @ suf'" "is_numeral m'" for pre' m' suf'
      using that by (cases pre') auto
    moreover have "x # xs = [] @ m @ r" using occ by simp
    ultimately have "first_numeral (x # xs) m"
      using num unfolding first_numeral_def by blast
    with fa show ?thesis by simp
  qed
qed

lemma first_numeral_unique:
  assumes "first_numeral s m" and "first_numeral s m'"
  shows "m = m'"
proof -
  from assms(1) obtain pre suf where occ: "s = pre @ m @ suf" and num: "is_numeral m"
    and least: "\<forall>p n t. s = p @ n @ t \<and> is_numeral n \<longrightarrow>
           length pre < length p \<or> (length pre = length p \<and> length n \<le> length m)"
    by (auto simp: first_numeral_def)
  from assms(2) obtain pre' suf' where occ': "s = pre' @ m' @ suf'" and num': "is_numeral m'"
    and least': "\<forall>p n t. s = p @ n @ t \<and> is_numeral n \<longrightarrow>
           length pre' < length p \<or> (length pre' = length p \<and> length n \<le> length m')"
    by (auto simp: first_numeral_def)
  from least occ' num' have
    "length pre < length pre' \<or> (length pre = length pre' \<and> length m' \<le> length m)" by blast
  moreover from least' occ num have
    "length pre' < length pre \<or> (length pre' = length pre \<and> length m \<le> length m')" by blast
  ultimately have lp: "length pre = length pre'" and lm: "length m = length m'" by auto
  from occ occ' have "pre @ (m @ suf) = pre' @ (m' @ suf')" by simp
  with lp have "m @ suf = m' @ suf'" by simp
  with lm show ?thesis by simp
qed

lemma first_numeral_has: "first_numeral s m \<Longrightarrow> has_numeral s"
  unfolding first_numeral_def has_numeral_def by blast

section \<open>The point query: the first covering candidate\<close>

text \<open>
  Claim C1.  For a layer with a built index: when the candidates the index returns for the
  bounding box of the point contain a polygon that covers the point (interior or
  boundary), the query chooses the first such candidate in the order the index returned
  them, with selection mode \<open>covers\<close> and the inside flag set.  The test is Shapely's
  \<^verbatim>\<open>covers\<close>, so a point on the boundary is chosen in the same way.  When the chosen
  position has a value for the field, the layer's result carries this choice, with
  distance 0.
\<close>

theorem covering_candidate_chosen_first:
  assumes "strtree L = Some t" and "tree_len lib t \<noteq> 0"
    and "bbox_candidates lib L t pt = Inr cands"
    and "\<exists>j \<in> set cands. covers_at lib L pt j"
  shows "\<exists>i. List.find (covers_at lib L pt) cands = Some i \<and>
           select_index lib L t pt force = Inr (Some i, ''covers'', True) \<and>
           (\<forall>a v src. py_get (attrs L) i = Inr a \<and> a fld = Some v \<and>
                py_get (sources L) i = Inr src \<longrightarrow>
              (\<exists>g. query_layer lib pt force fld L =
                 Inr (Some (i, ''covers'', True, g,
                   \<lparr>rec_value = v,
                    rec_unit = (case UNITS fld of None \<Rightarrow> [] | Some u \<Rightarrow> u),
                    rec_source = src,
                    rec_distance_km = Some 0\<rparr>))))"
proof -
  from assms(4) obtain i where i: "List.find (covers_at lib L pt) cands = Some i"
    by (cases "List.find (covers_at lib L pt) cands") (auto simp: find_None_iff)
  then have fc: "first_covering lib (geoms L) pt cands = Some i"
    by (simp add: first_covering_find)
  with assms(3) have sel: "select_index lib L t pt force = Inr (Some i, ''covers'', True)"
    by (simp add: select_index_def)
  from i have "covers_at lib L pt i" by (auto simp: find_Some_iff)
  then obtain g where g: "py_get (geoms L) i = Inr g" and cov: "covers lib g pt = Inr True"
    by (auto simp: covers_at_def split: sum.splits)
  have "query_layer lib pt force fld L =
          Inr (Some (i, ''covers'', True, g,
            \<lparr>rec_value = v,
             rec_unit = (case UNITS fld of None \<Rightarrow> [] | Some u \<Rightarrow> u),
             rec_source = src,
             rec_distance_km = Some 0\<rparr>))"
    if "py_get (attrs L) i = Inr a" "a fld = Some v" "py_get (sources L) i = Inr src"
    for a v src
    using that assms(1,2) sel g cov
    by (simp add: query_layer_def point_geom_distance_km_def)
  with i sel show ?thesis by blast
qed

theorem covering_candidate_chosen_first_witness:
  "strtree pga_layer = Some pga_boxes \<and> tree_len box_lib pga_boxes \<noteq> 0 \<and>
   bbox_candidates box_lib pga_layer pga_boxes (1, 2) = Inr [0, 1] \<and>
   covers_at box_lib pga_layer (1, 2) 0 \<and> covers_at box_lib pga_layer (1, 2) 1 \<and>
   (\<exists>i. List.find (covers_at box_lib pga_layer (1, 2)) [0, 1] = Some i \<and>
        select_index box_lib pga_layer pga_boxes (1, 2) True = Inr (Some i, ''covers'', True))"
proof -
  have h1: "strtree pga_layer = Some pga_boxes" by (simp add: demo_layer_simps)
  have h2: "tree_len box_lib pga_boxes \<noteq> 0" by (simp add: box_lib_simps pga_boxes_def)
  have h3: "bbox_candidates box_lib pga_layer pga_boxes (1, 2) = Inr [0, 1]"
    by (rule pga_bbox_boundary)
  have c0: "covers_at box_lib pga_layer (1, 2) 0" by (rule pga_covers_at)
  have c1: "covers_at box_lib pga_layer (1, 2) 1"
    by (simp add: covers_at_def py_get_def demo_layer_simps box_lib_simps pga_boxes_def
        box_covers_def)
  have h4: "\<exists>j \<in> set [0, 1]. covers_at box_lib pga_layer (1, 2) j" using c0 by simp
  from covering_candidate_chosen_first [OF h1 h2 h3 h4, of True "''pga''"]
  have "\<exists>i. List.find (covers_at box_lib pga_layer (1, 2)) [0, 1] = Some i \<and>
          select_index box_lib pga_layer pga_boxes (1, 2) True = Inr (Some i, ''covers'', True)"
    by blast
  with h1 h2 h3 c0 c1 show ?thesis by simp
qed

section \<open>The point query: fields left out\<close>

text \<open>
  Claim C5.  With the nearest fallback disabled: when, for the layer of field \<open>F\<close>, the
  candidates of the point are empty and the candidates of the expanded envelope (0.45
  degrees) are empty too, so that no covering polygon is found, the values the query
  returns have no entry for \<open>F\<close> (and the debug rows no row for it).
\<close>

theorem no_candidate_without_fallback_omits_field:
  assumes "distinct (map fst (LAYERS s))"
    and "(F, L) \<in> set (LAYERS s)"
    and "strtree L = Some t"
    and "bbox_candidates lib L t (lon, lat) = Inr []"
    and "expanded_candidates lib L t (lon, lat) = Inr []"
    and "fst (query_point lib lat lon False want s) = Inr (res, dbg)"
  shows "res F = None \<and> (\<forall>rows. dbg = Some rows \<longrightarrow> F \<notin> dbg_field ` set rows)"
proof -
  have skip: "query_layer lib (lon, lat) False F L = Inr None"
    by (rule no_candidates_no_record [OF assms(3,4,5)])
  from assms(6) obtain rows where
    run: "query_loop lib COMBINE_RULES (lon, lat) False want (LAYERS s) Map.empty []
            = Inr (res, rows)"
    and dbg: "dbg = (if want then Some rows else None)"
    using query_point_result [of COMBINE_RULES lib lat lon False want s res dbg]
    by (auto simp: query_point_def)
  from field_absent [OF assms(1,2) skip run] dbg show ?thesis
    by (auto split: if_splits)
qed

lemma demo_far_query:
  "fst (query_point box_lib 50 50 False True demo_state) = Inr (Map.empty, Some [])"
proof -
  have "query_loop box_lib COMBINE_RULES (50, 50) False True (LAYERS demo_state) Map.empty []
          = Inr (Map.empty, [])"
    by (rule query_loop_nothing) (simp add: demo_state_def pga_far_layer tl_far_layer)
  then show ?thesis by (simp add: query_point_def query_point_unfold)
qed

theorem no_candidate_without_fallback_omits_field_witness:
  "distinct (map fst (LAYERS demo_state)) \<and> (''pga'', pga_layer) \<in> set (LAYERS demo_state) \<and>
   strtree pga_layer = Some pga_boxes \<and>
   bbox_candidates box_lib pga_layer pga_boxes (50, 50) = Inr [] \<and>
   expanded_candidates box_lib pga_layer pga_boxes (50, 50) = Inr [] \<and>
   fst (query_point box_lib 50 50 False True demo_state) = Inr (Map.empty, Some []) \<and>
   (Map.empty :: string \<rightharpoonup> qrecord) ''pga'' = None \<and>
   ''pga'' \<notin> dbg_field ` set ([] :: debug_row list)"
proof -
  have h1: "distinct (map fst (LAYERS demo_state))" by (simp add: demo_state_def)
  have h2: "(''pga'', pga_layer) \<in> set (LAYERS demo_state)" by (simp add: demo_state_def)
  have h3: "strtree pga_layer = Some pga_boxes" by (simp add: demo_layer_simps)
  note h4 = pga_far_bbox and h5 = pga_far_expanded and h6 = demo_far_query
  from no_candidate_without_fallback_omits_field [OF h1 h2 h3 h4 h5 h6]
  have "(Map.empty :: string \<rightharpoonup> qrecord) ''pga'' = None \<and>
        ''pga'' \<notin> dbg_field ` set ([] :: debug_row list)"
    by simp
  with h1 h2 h3 h4 h5 h6 show ?thesis by simp
qed

text \<open>
  Claim C7.  When the tiered selection chooses a position of the layer of field \<open>F\<close> whose
  attribute map has no value for \<open>F\<close>, the layer gives no record, exactly as when nothing
  is chosen: the values have no entry for \<open>F\<close>, the debug rows no row for \<open>F\<close>, and the
  whole result is the one of the registry without that layer.
\<close>

theorem chosen_geometry_without_value_omitted:
  assumes "distinct (map fst (LAYERS s))"
    and "(F, L) \<in> set (LAYERS s)"
    and "strtree L = Some t"
    and "select_index lib L t (lon, lat) force = Inr (Some idx, sel, ins)"
    and "py_get (attrs L) idx = Inr a"
    and "a F = None"
  shows "query_layer lib (lon, lat) force F L = Inr None \<and>
         fst (query_point lib lat lon force want s) =
           fst (query_point lib lat lon force want
                  (s\<lparr>LAYERS := filter (\<lambda>(f, L'). f \<noteq> F) (LAYERS s)\<rparr>)) \<and>
         (\<forall>res dbg. fst (query_point lib lat lon force want s) = Inr (res, dbg) \<longrightarrow>
            res F = None \<and> (\<forall>rows. dbg = Some rows \<longrightarrow> F \<notin> dbg_field ` set rows))"
proof -
  have skip: "query_layer lib (lon, lat) force F L = Inr None"
    using assms(3,4,5,6) by (simp add: query_layer_def)
  have only: "\<forall>(f, L') \<in> set (LAYERS s). f = F \<longrightarrow>
                query_layer lib (lon, lat) force f L' = Inr None"
  proof -
    have "L' = L" if "(F, L') \<in> set (LAYERS s)" for L'
      using that assms(1,2) by (meson eq_key_imp_eq_value)
    with skip show ?thesis by auto
  qed
  have same: "fst (query_point lib lat lon force want s) =
           fst (query_point lib lat lon force want
                  (s\<lparr>LAYERS := filter (\<lambda>(f, L'). f \<noteq> F) (LAYERS s)\<rparr>))"
    using query_loop_skip [OF only, of COMBINE_RULES want Map.empty "[]"]
    by (simp add: query_point_def query_point_unfold)
  have "res F = None \<and> (\<forall>rows. dbg = Some rows \<longrightarrow> F \<notin> dbg_field ` set rows)"
    if "fst (query_point lib lat lon force want s) = Inr (res, dbg)" for res dbg
  proof -
    from that obtain rows where
      run: "query_loop lib COMBINE_RULES (lon, lat) force want (LAYERS s) Map.empty []
              = Inr (res, rows)"
      and dbg: "dbg = (if want then Some rows else None)"
      using query_point_result [of COMBINE_RULES lib lat lon force want s res dbg]
      by (auto simp: query_point_def)
    from field_absent [OF assms(1,2) skip run] dbg show ?thesis
      by (auto split: if_splits)
  qed
  with skip same show ?thesis by blast
qed

lemma tl_select_valueless:
  "select_index box_lib tl_layer tl_boxes (6, 6) False = Inr (Some 1, ''covers'', True)"
  by (simp add: select_index_def box_bbox_candidates py_get_def demo_layer_simps box_lib_simps
      tl_boxes_def box_covers_def)

lemma pga_select_valueless:
  "select_index box_lib pga_layer pga_boxes (6, 6) False = Inr (None, ''none'', False)"
  by (simp add: select_index_def box_bbox_candidates box_expanded_candidates py_get_def
      demo_layer_simps box_lib_simps pga_boxes_def box_covers_def box_meets_def)

theorem chosen_geometry_without_value_omitted_witness:
  "distinct (map fst (LAYERS demo_state)) \<and> (''tl'', tl_layer) \<in> set (LAYERS demo_state) \<and>
   strtree tl_layer = Some tl_boxes \<and>
   select_index box_lib tl_layer tl_boxes (6, 6) False = Inr (Some 1, ''covers'', True) \<and>
   py_get (attrs tl_layer) 1 = Inr Map.empty \<and>
   query_layer box_lib (6, 6) False ''tl'' tl_layer = Inr None \<and>
   fst (query_point box_lib 6 6 False True demo_state) = Inr (Map.empty, Some [])"
proof -
  have h1: "distinct (map fst (LAYERS demo_state))" by (simp add: demo_state_def)
  have h2: "(''tl'', tl_layer) \<in> set (LAYERS demo_state)" by (simp add: demo_state_def)
  have h3: "strtree tl_layer = Some tl_boxes" by (simp add: demo_layer_simps)
  note h4 = tl_select_valueless
  have h5: "py_get (attrs tl_layer) 1 = Inr Map.empty"
    by (simp add: py_get_def demo_layer_simps)
  have h6: "(Map.empty :: string \<rightharpoonup> pyval) ''tl'' = None" by simp
  note inst = chosen_geometry_without_value_omitted [OF h1 h2 h3 h4 h5 h6, of True]
  from inst have skip: "query_layer box_lib (6, 6) False ''tl'' tl_layer = Inr None"
    by blast
  have pga: "query_layer box_lib (6, 6) False ''pga'' pga_layer = Inr None"
    by (simp add: query_layer_def demo_layer_simps box_lib_simps pga_select_valueless)
  have "query_loop box_lib COMBINE_RULES (6, 6) False True (LAYERS demo_state) Map.empty []
          = Inr (Map.empty, [])"
    by (rule query_loop_nothing) (simp add: demo_state_def pga skip)
  then have "fst (query_point box_lib 6 6 False True demo_state) = Inr (Map.empty, Some [])"
    by (simp add: query_point_def query_point_unfold)
  with h1 h2 h3 h4 h5 skip show ?thesis by simp
qed

section \<open>The combine rules\<close>

text \<open>
  Claim C10.  The registry is a dictionary, so each field has one layer, and the selection
  gives at most one record per layer.  Hence within one call every record is stored under
  a key not yet in the results (the branches for \<open>max\<close>, \<open>min\<close> and \<open>last\<close> are never
  taken), the result is the same for every table of combine rules, and the record
  returned for a field is the record chosen for its layer.
\<close>

theorem each_field_assigned_once:
  assumes "distinct (map fst (LAYERS s))"
  shows "first_assignment_only lib rules (lon, lat) force (LAYERS s) Map.empty \<and>
         query_point_with rules lib lat lon force want s = query_point lib lat lon force want s \<and>
         (\<forall>res dbg F. fst (query_point_with rules lib lat lon force want s) = Inr (res, dbg) \<longrightarrow>
            res F = (case map_of (LAYERS s) F of
                       None \<Rightarrow> None
                     | Some L \<Rightarrow> chosen_record lib (lon, lat) force F L))"
proof -
  have fresh: "\<forall>f \<in> fst ` set (LAYERS s). (Map.empty :: string \<rightharpoonup> qrecord) f = None" by simp
  have one: "first_assignment_only lib rules (lon, lat) force (LAYERS s) Map.empty"
    by (rule first_assignment_only_distinct [OF assms fresh])
  have "query_loop lib rules (lon, lat) force want (LAYERS s) Map.empty [] =
        query_loop lib COMBINE_RULES (lon, lat) force want (LAYERS s) Map.empty []"
    by (rule query_loop_rules [OF assms fresh])
  then have two: "query_point_with rules lib lat lon force want s =
                  query_point lib lat lon force want s"
    by (simp add: query_point_def query_point_with_def)
  have "res F = (case map_of (LAYERS s) F of
                   None \<Rightarrow> None
                 | Some L \<Rightarrow> chosen_record lib (lon, lat) force F L)"
    if "fst (query_point_with rules lib lat lon force want s) = Inr (res, dbg)" for res dbg F
  proof -
    from query_point_result [OF that] obtain rows where
      run: "query_loop lib rules (lon, lat) force want (LAYERS s) Map.empty [] = Inr (res, rows)"
      by blast
    from query_loop_result [OF assms fresh run, of F] show ?thesis by simp
  qed
  with one two show ?thesis by blast
qed

lemma tl_near_layer: "query_layer box_lib (1, 2) False ''tl'' tl_layer = Inr None"
  by (simp add: query_layer_def select_index_def box_bbox_candidates box_expanded_candidates
      demo_layer_simps box_lib_simps tl_boxes_def box_covers_def box_meets_def)

lemma demo_boundary_query:
  "fst (query_point_with rules box_lib 2 1 False False demo_state) =
     Inr ([''pga'' \<mapsto> \<lparr>rec_value = VFloat 0.35, rec_unit = ''g'',
                       rec_source = ''pga-earthquake.kml'', rec_distance_km = Some 0\<rparr>], None)"
  by (simp add: query_point_unfold demo_state_def pga_boundary_layer tl_near_layer combine_fresh)

theorem each_field_assigned_once_witness:
  "distinct (map fst (LAYERS demo_state)) \<and>
   first_assignment_only box_lib (\<lambda>f. Some ''last'') (1, 2) False (LAYERS demo_state) Map.empty \<and>
   query_point_with (\<lambda>f. Some ''last'') box_lib 2 1 False False demo_state =
     query_point box_lib 2 1 False False demo_state \<and>
   fst (query_point_with (\<lambda>f. Some ''last'') box_lib 2 1 False False demo_state) =
     Inr ([''pga'' \<mapsto> \<lparr>rec_value = VFloat 0.35, rec_unit = ''g'',
                       rec_source = ''pga-earthquake.kml'', rec_distance_km = Some 0\<rparr>], None) \<and>
   chosen_record box_lib (1, 2) False ''pga'' pga_layer =
     Some \<lparr>rec_value = VFloat 0.35, rec_unit = ''g'',
           rec_source = ''pga-earthquake.kml'', rec_distance_km = Some 0\<rparr>"
proof -
  have h: "distinct (map fst (LAYERS demo_state))" by (simp add: demo_state_def)
  note inst = each_field_assigned_once [OF h, of box_lib "\<lambda>f. Some ''last''" 1 2 False False]
  have run: "fst (query_point_with (\<lambda>f. Some ''last'') box_lib 2 1 False False demo_state) =
     Inr ([''pga'' \<mapsto> \<lparr>rec_value = VFloat 0.35, rec_unit = ''g'',
                       rec_source = ''pga-earthquake.kml'', rec_distance_km = Some 0\<rparr>], None)"
    by (rule demo_boundary_query)
  from inst run have
    "[''pga'' \<mapsto> \<lparr>rec_value = VFloat 0.35, rec_unit = ''g'',
                  rec_source = ''pga-earthquake.kml'', rec_distance_km = Some 0\<rparr>] ''pga'' =
       (case map_of (LAYERS demo_state) ''pga'' of
          None \<Rightarrow> None
        | Some L \<Rightarrow> chosen_record box_lib (1, 2) False ''pga'' L)"
    by blast
  then have rec: "chosen_record box_lib (1, 2) False ''pga'' pga_layer =
     Some \<lparr>rec_value = VFloat 0.35, rec_unit = ''g'',
           rec_source = ''pga-earthquake.kml'', rec_distance_km = Some 0\<rparr>"
    by (simp add: demo_state_def)
  from inst h run rec show ?thesis by blast
qed

section \<open>The frame of the query\<close>

text \<open>
  Claim C9.  \<^verbatim>\<open>query_point\<close> does not change the shared state: after the call the registry
  is the one before the call, with the same layers in the same order, and every layer
  has the same field, geometries, attributes, sources and index.
\<close>

theorem query_point_leaves_state:
  "snd (query_point lib lat lon force want s) = s \<and>
   map fst (LAYERS (snd (query_point lib lat lon force want s))) = map fst (LAYERS s) \<and>
   map (\<lambda>(f, L). (field L, geoms L, attrs L, sources L, strtree L))
       (LAYERS (snd (query_point lib lat lon force want s))) =
   map (\<lambda>(f, L). (field L, geoms L, attrs L, sources L, strtree L)) (LAYERS s)"
  by (simp add: query_point_def query_point_state)

section \<open>The query returns\<close>












section \<open>Loading and a failing index\<close>

lemma demo_detect:
  "detect_field (path_name ''data/pga-earthquake.kml'') = Some ''pga''"
  "detect_field (path_name ''data/tl-earthquake.kml'') = Some ''tl''"
  "detect_field (path_name ''data/notes.kml'') = None"
  by code_simp+

lemma demo_group_layers:
  "group_layers demo_parse demo_files =
     [(''pga'', \<lparr>field = ''pga'', geoms = [(0, 0, 2, 2)],
                attrs = [coerce_attrs ''pga'' [''pga'' \<mapsto> ''0.35 g'']],
                sources = [''pga-earthquake.kml''], strtree = None\<rparr>),
      (''tl'', \<lparr>field = ''tl'', geoms = tl_boxes,
               attrs = [coerce_attrs ''tl'' [''tl'' \<mapsto> ''8''], coerce_attrs ''tl'' Map.empty],
               sources = [''tl-earthquake.kml'', ''tl-earthquake.kml''], strtree = None\<rparr>)]"
  by (simp add: group_layers_def demo_files_def load_file_def demo_detect demo_parse_def
      new_Layer_def tl_boxes_def)

lemma demo_group_layers_unreadable:
  "group_layers demo_parse_unreadable demo_files =
     [(''pga'', \<lparr>field = ''pga'', geoms = [], attrs = [], sources = [], strtree = None\<rparr>),
      (''tl'', \<lparr>field = ''tl'', geoms = tl_boxes,
               attrs = [coerce_attrs ''tl'' [''tl'' \<mapsto> ''8''], coerce_attrs ''tl'' Map.empty],
               sources = [''tl-earthquake.kml'', ''tl-earthquake.kml''], strtree = None\<rparr>)]"
  by (simp add: group_layers_def demo_files_def load_file_def demo_detect demo_parse_def
      demo_parse_unreadable_def new_Layer_def tl_boxes_def)

lemma box_valid_simps:
  "is_valid box_lib (x0, y0, x1, y1) = Inr (x0 \<le> x1 \<and> y0 \<le> y1)"
  "make_valid box_lib (x0, y0, x1, y1) = Inr (min x0 x1, min y0 y1, max x0 x1, max y0 y1)"
  by (simp_all add: box_lib_def)

lemma brittle_lib_simps:
  "is_valid brittle_lib = is_valid box_lib"
  "make_valid brittle_lib = make_valid box_lib"
  "STRtree brittle_lib gs = (if length gs < 2 then Inl GEOSException else Inr gs)"
  by (simp_all add: brittle_lib_def)

lemma box_fix_geom:
  "x0 \<le> x1 \<Longrightarrow> y0 \<le> y1 \<Longrightarrow> fix_geom box_lib (x0, y0, x1, y1) = (x0, y0, x1, y1)"
  by (simp add: fix_geom_def box_valid_simps)

lemma brittle_fix_geom: "fix_geom brittle_lib = fix_geom box_lib"
  by (rule ext) (simp add: fix_geom_def brittle_lib_simps split: sum.split bool.split)

text \<open>
  Claim C3, as the specification states it: when the construction of the index fails for
  the layer of one field, that field is unqueryable and the layers of the other fields are
  still built.  The program does otherwise.  With a library whose index cannot be built
  over the single geometry of \<open>pga\<close>, while the index of \<open>tl\<close> can be built, \<^verbatim>\<open>load_layers\<close>
  raises: no registry is returned, and \<open>tl\<close> is not loaded either.
\<close>

theorem index_failure_stops_loading:
  "map fst (group_layers demo_parse demo_files :: (box, box list) registry) = [''pga'', ''tl''] \<and>
   build_index brittle_lib (the (map_of (group_layers demo_parse demo_files) ''pga''))
     = Inl GEOSException \<and>
   map_sum id strtree
     (build_index brittle_lib (the (map_of (group_layers demo_parse demo_files) ''tl'')))
     = Inr (Some tl_boxes) \<and>
   load_layers brittle_lib demo_parse demo_files = Inl GEOSException"
  by (simp add: load_layers_def demo_group_layers build_index_def brittle_fix_geom box_fix_geom
      tl_boxes_def brittle_lib_simps Let_def)

text \<open>
  Claim C3, amended.  \<^verbatim>\<open>load_layers\<close> builds the index of each field's layer in turn and
  does not catch a failure of the index constructor: when the construction raises for the
  layer of some field, \<^verbatim>\<open>load_layers\<close> raises and no field is loaded; when it raises for
  none, every layer is built.  A field is merely unqueryable, the others being built and
  queryable, when its layer has no geometries: no index is constructed for it, which
  cannot fail, and \<^verbatim>\<open>query_point\<close> passes over a layer without index.
\<close>

theorem load_layers_all_or_nothing:
  "((\<exists>f L e. (f, L) \<in> set (group_layers parse files) \<and> build_index lib L = Inl e) \<longrightarrow>
      (\<exists>e. load_layers lib parse files = Inl e)) \<and>
   ((\<forall>(f, L) \<in> set (group_layers parse files). \<exists>L'. build_index lib L = Inr L') \<longrightarrow>
      (\<exists>reg. load_layers lib parse files = Inr reg \<and>
         list_all2 (\<lambda>(f, L) (f', L'). f' = f \<and> build_index lib L = Inr L')
           (group_layers parse files) reg)) \<and>
   (\<forall>L0. geoms L0 = [] \<longrightarrow> build_index lib L0 = Inr L0) \<and>
   (\<forall>L0. strtree L0 = None \<longrightarrow> query_layer lib pt force fld L0 = Inr None)"
proof (intro conjI impI allI)
  assume "\<exists>f L e. (f, L) \<in> set (group_layers parse files) \<and> build_index lib L = Inl e"
  then show "\<exists>e. load_layers lib parse files = Inl e"
    by (auto simp: load_layers_def dest: build_all_fails)
next
  assume "\<forall>(f, L) \<in> set (group_layers parse files). \<exists>L'. build_index lib L = Inr L'"
  from build_all_succeeds [OF this]
  show "\<exists>reg. load_layers lib parse files = Inr reg \<and>
         list_all2 (\<lambda>(f, L) (f', L'). f' = f \<and> build_index lib L = Inr L')
           (group_layers parse files) reg"
    by (simp add: load_layers_def)
next
  fix L0 :: "('a, 'b) Layer"
  assume "geoms L0 = []"
  then show "build_index lib L0 = Inr L0" by (simp add: build_index_def)
next
  fix L0 :: "('a, 'b) Layer"
  assume "strtree L0 = None"
  then show "query_layer lib pt force fld L0 = Inr None" by (simp add: query_layer_def)
qed

lemma demo_load_unreadable:
  "load_layers box_lib demo_parse_unreadable demo_files =
     Inr [(''pga'', \<lparr>field = ''pga'', geoms = [], attrs = [], sources = [], strtree = None\<rparr>),
          (''tl'', \<lparr>field = ''tl'', geoms = tl_boxes,
                   attrs = [coerce_attrs ''tl'' [''tl'' \<mapsto> ''8''], coerce_attrs ''tl'' Map.empty],
                   sources = [''tl-earthquake.kml'', ''tl-earthquake.kml''],
                   strtree = Some tl_boxes\<rparr>)]"
  by (simp add: load_layers_def demo_group_layers_unreadable build_index_def box_lib_simps
      box_fix_geom tl_boxes_def Let_def)

theorem load_layers_all_or_nothing_witness:
  "(''pga'', \<lparr>field = ''pga'', geoms = [(0, 0, 2, 2)],
              attrs = [coerce_attrs ''pga'' [''pga'' \<mapsto> ''0.35 g'']],
              sources = [''pga-earthquake.kml''], strtree = None\<rparr>)
     \<in> set (group_layers demo_parse demo_files :: (box, box list) registry) \<and>
   build_index brittle_lib \<lparr>field = ''pga'', geoms = [(0, 0, 2, 2)],
              attrs = [coerce_attrs ''pga'' [''pga'' \<mapsto> ''0.35 g'']],
              sources = [''pga-earthquake.kml''], strtree = None\<rparr> = Inl GEOSException \<and>
   (\<exists>e. load_layers brittle_lib demo_parse demo_files = Inl e) \<and>
   (\<exists>reg. load_layers box_lib demo_parse_unreadable demo_files = Inr reg \<and>
      list_all2 (\<lambda>(f, L) (f', L'). f' = f \<and> build_index box_lib L = Inr L')
        (group_layers demo_parse_unreadable demo_files) reg) \<and>
   load_layers box_lib demo_parse_unreadable demo_files =
     Inr [(''pga'', \<lparr>field = ''pga'', geoms = [], attrs = [], sources = [], strtree = None\<rparr>),
          (''tl'', \<lparr>field = ''tl'', geoms = tl_boxes,
                   attrs = [coerce_attrs ''tl'' [''tl'' \<mapsto> ''8''], coerce_attrs ''tl'' Map.empty],
                   sources = [''tl-earthquake.kml'', ''tl-earthquake.kml''],
                   strtree = Some tl_boxes\<rparr>)] \<and>
   build_index box_lib \<lparr>field = ''pga'', geoms = [], attrs = [], sources = [], strtree = None\<rparr>
     = Inr \<lparr>field = ''pga'', geoms = [], attrs = [], sources = [], strtree = None\<rparr> \<and>
   query_layer box_lib (1, 2) True ''pga''
     \<lparr>field = ''pga'', geoms = [], attrs = [], sources = [], strtree = None\<rparr> = Inr None"
proof -
  let ?Lp = "\<lparr>field = ''pga'', geoms = [(0, 0, 2, 2)],
              attrs = [coerce_attrs ''pga'' [''pga'' \<mapsto> ''0.35 g'']],
              sources = [''pga-earthquake.kml''], strtree = None\<rparr> :: (box, box list) Layer"
  let ?L0 = "\<lparr>field = ''pga'', geoms = [], attrs = [], sources = [], strtree = None\<rparr>
               :: (box, box list) Layer"
  have m: "(''pga'', ?Lp) \<in> set (group_layers demo_parse demo_files)"
    by (simp add: demo_group_layers)
  have f: "build_index brittle_lib ?Lp = Inl GEOSException"
    by (simp add: build_index_def brittle_lib_simps Let_def)
  have all: "\<forall>(f, L) \<in> set (group_layers demo_parse_unreadable demo_files).
               \<exists>L'. build_index box_lib L = Inr L'"
    by (simp add: demo_group_layers_unreadable build_index_def box_lib_simps Let_def)
  have g: "geoms ?L0 = []" and t: "strtree ?L0 = None" by simp_all
  note a = load_layers_all_or_nothing [of demo_parse demo_files brittle_lib "(1, 2)" True "''pga''"]
  note b = load_layers_all_or_nothing
             [of demo_parse_unreadable demo_files box_lib "(1, 2)" True "''pga''"]
  from a m f have a1: "\<exists>e. load_layers brittle_lib demo_parse demo_files = Inl e" by blast
  from b all have b1: "\<exists>reg. load_layers box_lib demo_parse_unreadable demo_files = Inr reg \<and>
      list_all2 (\<lambda>(f, L) (f', L'). f' = f \<and> build_index box_lib L = Inr L')
        (group_layers demo_parse_unreadable demo_files) reg" by blast
  from b g have b2: "build_index box_lib ?L0 = Inr ?L0" by blast
  from b t have b3: "query_layer box_lib (1, 2) True ''pga'' ?L0 = Inr None" by blast
  from m f a1 b1 demo_load_unreadable b2 b3 show ?thesis by (intro conjI)
qed

section \<open>The reported distance\<close>

text \<open>
  Claim C4.  For the chosen geometry and the query point: when the geometry covers the
  point, the distance reported is exactly 0; otherwise it is the great-circle distance
  (haversine formula on a sphere of radius 6371.0088 km) between the two closest points of
  the point and the geometry, rounded to 3 decimal places; and when that computation
  fails (the closest points cannot be computed, or the formula leaves the domain of the
  square root or the arc sine) the distance is null, the field being reported all the same.
  The record of a field carries the distance of the geometry at the chosen position.
\<close>

theorem distance_km_reported:
  "(covers lib geom pt = Inr True \<longrightarrow> point_geom_distance_km lib pt geom = Some 0) \<and>
   (covers lib geom pt \<noteq> Inr True \<and> nearest_points lib pt geom = Inr (p1, p2) \<and>
    haversine_km (snd p1) (fst p1) (snd p2) (fst p2) = Inr d \<longrightarrow>
      point_geom_distance_km lib pt geom = Some (py_round d 3) \<and>
      d = great_circle_km p1 p2 \<and>
      \<bar>py_round d 3 - d\<bar> \<le> 1 / 2000 \<and>
      (\<exists>k :: int. py_round d 3 = of_int k / 1000)) \<and>
   (covers lib geom pt \<noteq> Inr True \<and>
    (nearest_points lib pt geom = Inl e \<or>
     nearest_points lib pt geom = Inr (p1, p2) \<and>
     haversine_km (snd p1) (fst p1) (snd p2) (fst p2) = Inl e) \<longrightarrow>
      point_geom_distance_km lib pt geom = None) \<and>
   (query_layer lib pt force fld L = Inr (Some (i, sel, ins, g, rcd)) \<longrightarrow>
      py_get (geoms L) i = Inr g \<and> rec_distance_km rcd = point_geom_distance_km lib pt g)"
proof (intro conjI impI)
  assume "covers lib geom pt = Inr True"
  then show "point_geom_distance_km lib pt geom = Some 0"
    by (simp add: point_geom_distance_km_def)
next
  assume a: "covers lib geom pt \<noteq> Inr True \<and> nearest_points lib pt geom = Inr (p1, p2) \<and>
             haversine_km (snd p1) (fst p1) (snd p2) (fst p2) = Inr d"
  then have out: "(case covers lib geom pt of Inl e \<Rightarrow> False | Inr b \<Rightarrow> b) = False"
    by (auto split: sum.splits)
  with a show "point_geom_distance_km lib pt geom = Some (py_round d 3)"
    by (simp add: point_geom_distance_km_def)
  from a haversine_km_formula [of "snd p1" "fst p1" "snd p2" "fst p2" d]
  show "d = great_circle_km p1 p2" by simp
  from py_round_near [of d 3] show "\<bar>py_round d 3 - d\<bar> \<le> 1 / 2000" by simp
  from py_round_decimal [of d 3] show "\<exists>k :: int. py_round d 3 = of_int k / 1000" by simp
next
  assume a: "covers lib geom pt \<noteq> Inr True \<and>
             (nearest_points lib pt geom = Inl e \<or>
              nearest_points lib pt geom = Inr (p1, p2) \<and>
              haversine_km (snd p1) (fst p1) (snd p2) (fst p2) = Inl e)"
  then have out: "(case covers lib geom pt of Inl e \<Rightarrow> False | Inr b \<Rightarrow> b) = False"
    by (auto split: sum.splits)
  with a show "point_geom_distance_km lib pt geom = None"
    by (auto simp: point_geom_distance_km_def)
next
  assume a: "query_layer lib pt force fld L = Inr (Some (i, sel, ins, g, rcd))"
  then show "py_get (geoms L) i = Inr g"
    by (auto simp: query_layer_def Let_def split: option.splits if_splits sum.splits)
  from a show "rec_distance_km rcd = point_geom_distance_km lib pt g"
    by (auto simp: query_layer_def Let_def split: option.splits if_splits sum.splits)
qed

theorem distance_km_reported_witness:
  "covers box_lib (0, 0, 2, 2) (1, 2) = Inr True \<and>
   point_geom_distance_km box_lib (1, 2) (0, 0, 2, 2) = Some 0 \<and>
   covers box_lib (0, 0, 2, 2) (3, 1) \<noteq> Inr True \<and>
   nearest_points box_lib (3, 1) (0, 0, 2, 2) = Inr ((3, 1), (2, 1)) \<and>
   haversine_km 1 3 1 2 = Inr (great_circle_km (3, 1) (2, 1)) \<and>
   point_geom_distance_km box_lib (3, 1) (0, 0, 2, 2)
     = Some (py_round (great_circle_km (3, 1) (2, 1)) 3) \<and>
   nearest_points no_nearest_lib (3, 1) (0, 0, 2, 2) = Inl GEOSException \<and>
   point_geom_distance_km no_nearest_lib (3, 1) (0, 0, 2, 2) = None \<and>
   query_layer box_lib (1, 2) True ''pga'' pga_layer =
     Inr (Some (0, ''covers'', True, (0, 0, 2, 2),
       \<lparr>rec_value = VFloat 0.35, rec_unit = ''g'', rec_source = ''pga-earthquake.kml'',
        rec_distance_km = Some 0\<rparr>)) \<and>
   py_get (geoms pga_layer) 0 = Inr (0, 0, 2, 2)"
proof -
  have c1: "covers box_lib (0, 0, 2, 2) (1, 2) = Inr True"
    by (simp add: box_lib_simps box_covers_def)
  have c2: "covers box_lib (0, 0, 2, 2) (3, 1) \<noteq> Inr True"
    by (simp add: box_lib_simps box_covers_def)
  have n2: "nearest_points box_lib (3, 1) (0, 0, 2, 2) = Inr ((3, 1), (2, 1))"
    by (simp add: box_lib_simps box_clamp_def)
  have h2: "haversine_km 1 3 1 2 = Inr (great_circle_km (3, 1) (2, 1))"
    by (rule haversine_km_valid_latitudes) simp_all
  have c3: "covers no_nearest_lib (0, 0, 2, 2) (3, 1) \<noteq> Inr True"
    by (simp add: no_nearest_lib_def box_lib_def box_covers_def)
  have n3: "nearest_points no_nearest_lib (3, 1) (0, 0, 2, 2) = Inl GEOSException"
    by (simp add: no_nearest_lib_def)
  note q = pga_boundary_layer [of True]
  from distance_km_reported [of box_lib "(0, 0, 2, 2)" "(1, 2)"] c1
  have r1: "point_geom_distance_km box_lib (1, 2) (0, 0, 2, 2) = Some 0" by blast
  from distance_km_reported
         [of box_lib "(0, 0, 2, 2)" "(3, 1)" "(3, 1)" "(2, 1)" "great_circle_km (3, 1) (2, 1)"]
       c2 n2 h2
  have r2: "point_geom_distance_km box_lib (3, 1) (0, 0, 2, 2)
              = Some (py_round (great_circle_km (3, 1) (2, 1)) 3)" by simp
  from distance_km_reported [of no_nearest_lib "(0, 0, 2, 2)" "(3, 1)" _ _ _ GEOSException]
       c3 n3
  have r3: "point_geom_distance_km no_nearest_lib (3, 1) (0, 0, 2, 2) = None" by blast
  from distance_km_reported [of box_lib _ "(1, 2)" _ _ _ _ True "''pga''" pga_layer] q
  have r4: "py_get (geoms pga_layer) 0 = Inr (0, 0, 2, 2)" by blast
  from c1 r1 c2 n2 h2 r2 n3 r3 q r4 show ?thesis by (intro conjI)
qed

section \<open>Numeric coercion\<close>

text \<open>
  Claim C6.  For every string, \<^verbatim>\<open>safe_number\<close> converts the first signed or unsigned
  decimal or integer is_numeral found in it to a number, and returns the string unchanged
  when it contains no is_numeral; a string that contains a is_numeral has a first one.  In
  particular \<open>0.35 g\<close> gives 0.35, \<open>N/A\<close> stays as it is, and \<open>12\<close> gives 12.0.
\<close>

theorem safe_number_first_numeral:
  "(\<forall>m. first_numeral s m \<longrightarrow> (\<exists>v. float_numeral m = Inr v \<and> safe_number s = VFloat v)) \<and>
   (has_numeral s \<longrightarrow> (\<exists>m. first_numeral s m)) \<and>
   (\<not> has_numeral s \<longrightarrow> safe_number s = VStr s) \<and>
   safe_number ''0.35 g'' = VFloat 0.35 \<and>
   safe_number ''N/A'' = VStr ''N/A'' \<and>
   safe_number ''12'' = VFloat 12"
proof (intro conjI allI impI)
  fix m
  assume fm: "first_numeral s m"
  then have "has_numeral s" by (rule first_numeral_has)
  with findall_first_numeral [of s] obtain m0 ms where
    fa: "findall number_pattern s = m0 # ms" by (cases "findall number_pattern s") auto
  with findall_first_numeral [of s] have "first_numeral s m0" by blast
  from first_numeral_unique [OF this fm] have m: "m0 = m" .
  from fm have "is_numeral m" by (auto simp: first_numeral_def)
  from float_numeral_total [OF this] obtain v where v: "float_numeral m = Inr v" by blast
  with fa m show "\<exists>v. float_numeral m = Inr v \<and> safe_number s = VFloat v"
    by (simp add: safe_number_def)
next
  assume "has_numeral s"
  with findall_first_numeral [of s] obtain m0 ms where
    "findall number_pattern s = m0 # ms" by (cases "findall number_pattern s") auto
  with findall_first_numeral [of s] show "\<exists>m. first_numeral s m" by blast
next
  assume no: "\<not> has_numeral s"
  have "findall number_pattern s = []"
  proof (cases "findall number_pattern s")
    case Nil
    then show ?thesis .
  next
    case (Cons m0 ms)
    with findall_first_numeral [of s] have "first_numeral s m0" by blast
    then have "has_numeral s" by (rule first_numeral_has)
    with no show ?thesis by simp
  qed
  then show "safe_number s = VStr s" by (simp add: safe_number_def)
next
  show "safe_number ''0.35 g'' = VFloat 0.35"
    by (simp add: safe_number_def findall.simps number_pattern_def is_digit_def is_sign_def
        is_dot_def float_numeral_def float_body_def digits_val_def digit_val_def)
next
  show "safe_number ''N/A'' = VStr ''N/A''"
    by (simp add: safe_number_def findall.simps number_pattern_def is_digit_def is_sign_def
        is_dot_def)
next
  show "safe_number ''12'' = VFloat 12"
    by (simp add: safe_number_def findall.simps number_pattern_def is_digit_def is_sign_def
        is_dot_def float_numeral_def float_body_def digits_val_def digit_val_def)
qed

lemma findall_examples:
  "findall number_pattern ''0.35 g'' = [''0.35'']"
  "findall number_pattern ''N/A'' = []"
  "findall number_pattern ''zone -1.5.2 / +7.'' = [''-1.5'', ''.2'', ''+7'']"
  by (simp_all add: findall.simps number_pattern_def is_digit_def is_sign_def is_dot_def)

theorem safe_number_first_numeral_witness:
  "first_numeral ''0.35 g'' ''0.35'' \<and> has_numeral ''0.35 g'' \<and>
   float_numeral ''0.35'' = Inr 0.35 \<and> safe_number ''0.35 g'' = VFloat 0.35 \<and>
   \<not> has_numeral ''N/A'' \<and> safe_number ''N/A'' = VStr ''N/A'' \<and>
   first_numeral ''zone -1.5.2 / +7.'' ''-1.5'' \<and>
   safe_number ''zone -1.5.2 / +7.'' = VFloat (- 1.5)"
proof -
  have f1: "first_numeral ''0.35 g'' ''0.35''"
    using findall_first_numeral [of "''0.35 g''"] findall_examples(1) by blast
  then have h1: "has_numeral ''0.35 g''" by (rule first_numeral_has)
  have v1: "float_numeral ''0.35'' = Inr 0.35"
    by (simp add: float_numeral_def float_body_def is_digit_def is_dot_def digits_val_def
        digit_val_def)
  have n2: "\<not> has_numeral ''N/A''"
    using findall_first_numeral [of "''N/A''"] findall_examples(2) by blast
  have f3: "first_numeral ''zone -1.5.2 / +7.'' ''-1.5''"
    using findall_first_numeral [of "''zone -1.5.2 / +7.''"] findall_examples(3) by blast
  have v3: "float_numeral ''-1.5'' = Inr (- 1.5)"
    by (simp add: float_numeral_def float_body_def is_digit_def is_dot_def digits_val_def
        digit_val_def)
  from safe_number_first_numeral [of "''0.35 g''"] f1 v1
  have r1: "safe_number ''0.35 g'' = VFloat 0.35" by auto
  from safe_number_first_numeral [of "''N/A''"] n2
  have r2: "safe_number ''N/A'' = VStr ''N/A''" by blast
  from safe_number_first_numeral [of "''zone -1.5.2 / +7.''"] f3 v3
  have r3: "safe_number ''zone -1.5.2 / +7.'' = VFloat (- 1.5)" by auto
  from f1 h1 v1 r1 n2 r2 f3 r3 show ?thesis by (intro conjI)
qed

end
